theory Spec2Isabelle
  imports Main "HOL-Library.Log_Nat" "HOL-Library.Word"
begin

section \<open>JavaScript numbers\<close>

text \<open>
  A JavaScript \<^verbatim>\<open>number\<close> is an IEEE 754 binary64 value. A finite one is modelled by the
  rational it denotes, the two infinities and NaN are constructors of their own. The two
  zeros are one value here: the program never divides by a computed zero and never
  prints a sign of zero, so it cannot tell them apart.
\<close>

datatype number = Num rat | PosInf | NegInf | NaN

definition pow2 :: "int \<Rightarrow> rat" where
  "pow2 e = (if 0 \<le> e then 2 ^ nat e else 1 / 2 ^ nat (- e))"

text \<open>The binary exponent of a positive rational: \<open>pow2 (ilog2 x) \<le> x < pow2 (ilog2 x + 1)\<close>.\<close>

definition ilog2 :: "rat \<Rightarrow> int" where
  "ilog2 x = (if 1 \<le> x then bitlen \<lfloor>x\<rfloor> - 1 else - bitlen (\<lceil>1 / x\<rceil> - 1))"

definition round_half_even :: "rat \<Rightarrow> int" where
  "round_half_even m =
     (let f = \<lfloor>m\<rfloor>; d = m - of_int f
      in if d < 1 / 2 then f else if 1 / 2 < d then f + 1 else if even f then f else f + 1)"

text \<open>
  The spacing of the binary64 values around \<open>x\<close>: 53 significant bits, and the fixed
  spacing \<open>2 ^ - 1074\<close> of the subnormal range below \<open>2 ^ - 1022\<close>.
\<close>

definition quantum :: "rat \<Rightarrow> rat" where
  "quantum x = pow2 (max (ilog2 \<bar>x\<bar>) (- 1022) - 52)"

text \<open>
  Rounding to the nearest binary64 value, ties to the even significand; a result of
  magnitude \<open>2 ^ 1024\<close> or more overflows to an infinity.
\<close>

definition round64 :: "rat \<Rightarrow> number" where
  "round64 x =
     (if x = 0 then Num 0
      else let q = quantum x; r = of_int (round_half_even (x / q)) * q
           in if 2 ^ 1024 \<le> r then PosInf else if r \<le> - (2 ^ 1024) then NegInf else Num r)"

text \<open>The operator \<^verbatim>\<open>*\<close> on numbers.\<close>

fun fmul :: "number \<Rightarrow> number \<Rightarrow> number" where
  "fmul (Num a) (Num b) = round64 (a * b)"
| "fmul NaN _ = NaN"
| "fmul _ NaN = NaN"
| "fmul (Num a) PosInf = (if a = 0 then NaN else if 0 < a then PosInf else NegInf)"
| "fmul (Num a) NegInf = (if a = 0 then NaN else if 0 < a then NegInf else PosInf)"
| "fmul PosInf (Num b) = (if b = 0 then NaN else if 0 < b then PosInf else NegInf)"
| "fmul NegInf (Num b) = (if b = 0 then NaN else if 0 < b then NegInf else PosInf)"
| "fmul PosInf PosInf = PosInf"
| "fmul PosInf NegInf = NegInf"
| "fmul NegInf PosInf = NegInf"
| "fmul NegInf NegInf = PosInf"

text \<open>
  The operator \<^verbatim>\<open>/\<close> on numbers. A zero divisor is read as \<open>+0\<close>; the program divides
  by the constant 650 only.
\<close>

fun fdiv :: "number \<Rightarrow> number \<Rightarrow> number" where
  "fdiv (Num a) (Num b) =
     (if b = 0 then (if a = 0 then NaN else if 0 < a then PosInf else NegInf)
      else round64 (a / b))"
| "fdiv NaN _ = NaN"
| "fdiv _ NaN = NaN"
| "fdiv (Num a) PosInf = Num 0"
| "fdiv (Num a) NegInf = Num 0"
| "fdiv PosInf (Num b) = (if 0 \<le> b then PosInf else NegInf)"
| "fdiv NegInf (Num b) = (if 0 \<le> b then NegInf else PosInf)"
| "fdiv PosInf PosInf = NaN"
| "fdiv PosInf NegInf = NaN"
| "fdiv NegInf PosInf = NaN"
| "fdiv NegInf NegInf = NaN"

text \<open>The operator \<^verbatim>\<open>+\<close> on numbers.\<close>

fun fadd :: "number \<Rightarrow> number \<Rightarrow> number" where
  "fadd (Num a) (Num b) = round64 (a + b)"
| "fadd NaN _ = NaN"
| "fadd _ NaN = NaN"
| "fadd PosInf NegInf = NaN"
| "fadd NegInf PosInf = NaN"
| "fadd PosInf _ = PosInf"
| "fadd _ PosInf = PosInf"
| "fadd NegInf _ = NegInf"
| "fadd _ NegInf = NegInf"

text \<open>\<^verbatim>\<open>Math.floor\<close>: the floor of a binary64 value is a binary64 value, nothing is rounded.\<close>

fun Math_floor :: "number \<Rightarrow> number" where
  "Math_floor (Num a) = Num (of_int \<lfloor>a\<rfloor>)"
| "Math_floor x = x"

text \<open>\<^verbatim>\<open>Number(n)\<close> of a bigint \<open>n\<close>: the nearest binary64 value.\<close>

definition Number_of_bigint :: "int \<Rightarrow> number" where
  "Number_of_bigint n = round64 (of_int n)"

text \<open>
  \<^verbatim>\<open>formatEther\<close> writes a wei amount as the decimal numeral of \<open>wei / 10 ^ 18\<close>; the
  numeral is modelled by the rational it denotes. \<^verbatim>\<open>Number(s)\<close> of a decimal numeral
  is the nearest binary64 value (ECMAScript lets an engine stop at the twentieth
  significant digit of a longer numeral; the engines in use round the whole numeral).
\<close>

definition formatEther :: "256 word \<Rightarrow> rat" where
  "formatEther wei = of_nat (unat wei) / 10 ^ 18"

definition Number_of_decimal :: "rat \<Rightarrow> number" where
  "Number_of_decimal d = round64 d"

text \<open>What \<^verbatim>\<open>JSON.stringify\<close> sends for a number: a value that is not finite becomes \<^verbatim>\<open>null\<close>.\<close>

fun json_number :: "number \<Rightarrow> rat option" where
  "json_number (Num a) = Some a"
| "json_number x = None"

subsection \<open>Printing with two decimals\<close>

fun show_nat :: "nat \<Rightarrow> string" where
  "show_nat n =
     (if n < 10 then [char_of (48 + n)] else show_nat (n div 10) @ [char_of (48 + n mod 10)])"

declare show_nat.simps [simp del]

text \<open>
  \<^verbatim>\<open>x.toFixed(2)\<close> for \<open>0 \<le> x < 10 ^ 21\<close>: the integer \<open>n\<close> nearest to \<open>100 * x\<close> (the larger
  one of two), its digits padded to three, and a point before the last two.
\<close>

definition fixed2 :: "rat \<Rightarrow> string" where
  "fixed2 x =
     (let n = nat \<lfloor>x * 100 + 1 / 2\<rfloor>;
          m = show_nat n;
          m' = (if length m \<le> 2 then replicate (3 - length m) CHR ''0'' @ m else m);
          k = length m'
      in take (k - 2) m' @ ''.'' @ drop (k - 2) m')"

text \<open>
  \<^verbatim>\<open>toFixed(2)\<close> on any number. From \<open>10 ^ 21\<close> on it is \<^verbatim>\<open>Number::toString\<close> (the
  exponent notation of ECMAScript), which is the parameter \<open>ts\<close>.
\<close>

definition toFixed2 :: "(rat \<Rightarrow> string) \<Rightarrow> number \<Rightarrow> string" where
  "toFixed2 ts x =
     (case x of
        Num a \<Rightarrow>
          if 10 ^ 21 \<le> \<bar>a\<bar> then ts a
          else if a < 0 then ''-'' @ fixed2 (- a) else fixed2 a
      | PosInf \<Rightarrow> ''Infinity''
      | NegInf \<Rightarrow> ''-Infinity''
      | NaN \<Rightarrow> ''NaN'')"

section \<open>Strings\<close>

text \<open>
  \<^verbatim>\<open>toLowerCase\<close> on the ASCII letters; an address is \<^verbatim>\<open>0x\<close> and hexadecimal digits.
\<close>

definition lower_char :: "char \<Rightarrow> char" where
  "lower_char c =
     (let n = (of_char c :: nat) in if 65 \<le> n \<and> n \<le> 90 then char_of (n + 32) else c)"

definition toLowerCase :: "string \<Rightarrow> string" where
  "toLowerCase s = map lower_char s"

section \<open>Constants\<close>

definition CYGAAR_ADDRESS :: string where
  "CYGAAR_ADDRESS = ''0x35EfA4699EdD7b468CBBf4FfF7B6e7AFC0A7aDa6''"

definition UNISWAP_POOL :: string where
  "UNISWAP_POOL = ''0xBe01179F2291773D220Eae55Ee85b417F40342d0''"

definition START_BLOCK :: int where
  "START_BLOCK = 257810"

definition POINTS_PER_TOKEN :: number where
  "POINTS_PER_TOKEN = round64 (1 / 10 ^ 10)"

definition POINTS_PER_LEVEL :: number where
  "POINTS_PER_LEVEL = Num 650"

section \<open>Data\<close>

text \<open>\<^verbatim>\<open>interface PointsData\<close>.\<close>

record PointsData =
  balance :: string
  points :: number
  blocksHeld :: number
  level :: number

text \<open>
  A row of the table \<^verbatim>\<open>points_leaderboard\<close>, and so an element of the list a select
  returns (\<^verbatim>\<open>interface LeaderboardEntry\<close>). The column \<^verbatim>\<open>points\<close> is
  numeric; it is \<open>None\<close> where the client sent \<^verbatim>\<open>null\<close>.
\<close>

record LeaderboardEntry =
  entry_address :: string
  entry_points :: "rat option"
  entry_last_updated :: string

text \<open>The object handed to \<^verbatim>\<open>upsert\<close>.\<close>

record upsert_row =
  row_address :: string
  row_points :: number
  row_last_updated :: string

type_synonym js_error = string

text \<open>
  The calls the component makes to the chain reader and to the store, in the order made:
  \<^verbatim>\<open>getBlockNumber\<close>, \<^verbatim>\<open>readContract\<close> with the contract, the function and its
  argument, \<^verbatim>\<open>upsert\<close> with its row, and the select with the address it excludes and
  its limit.
\<close>

datatype call =
  GetBlockNumber
| ReadContract string string string
| Upsert upsert_row
| Select string nat

text \<open>A line of \<^verbatim>\<open>console.error\<close>: with a label, or the error alone.\<close>

datatype log_entry = ConsoleError string js_error | ConsoleErrorBare js_error

text \<open>
  What the outside answers during one run: the chain's block height and the token's
  \<^verbatim>\<open>balanceOf\<close> (a \<^verbatim>\<open>uint256\<close>), either of which may throw; the \<^verbatim>\<open>error\<close> field of
  the store's answer to the upsert and to the select; the clock's
  \<^verbatim>\<open>new Date().toISOString()\<close>; and \<^verbatim>\<open>Number::toString\<close> of the runtime.
\<close>

record env =
  getBlockNumber :: "js_error + nat"
  balanceOf :: "string \<Rightarrow> string \<Rightarrow> js_error + 256 word"
  upsertError :: "js_error option"
  selectError :: "js_error option"
  now :: string
  numberToString :: "rat \<Rightarrow> string"

text \<open>
  The component's React state (\<^verbatim>\<open>useState\<close>), together with the store's table, the
  requests sent so far and the console.
\<close>

record state =
  address :: string
  pointsData :: "PointsData option"
  loading :: bool
  error :: string
  leaderboard :: "LeaderboardEntry list"
  showPointsAnimation :: bool
  showLevelUp :: bool
  table :: "LeaderboardEntry list"
  calls :: "call list"
  console :: "log_entry list"

section \<open>The leaderboard store\<close>

text \<open>
  \<^verbatim>\<open>.neq('address', a)\<close> keeps the rows whose address differs from \<open>a\<close> as text;
  \<^verbatim>\<open>.order('points', { ascending: false })\<close> sorts them by points, largest first and a
  \<^verbatim>\<open>NULL\<close> before every number (the store orders rows of equal points as it likes;
  here they keep the table's order);
  \<^verbatim>\<open>.limit(n)\<close> keeps the first \<open>n\<close>.
\<close>

fun points_ge :: "rat option \<Rightarrow> rat option \<Rightarrow> bool" where
  "points_ge None _ = True"
| "points_ge (Some a) None = False"
| "points_ge (Some a) (Some b) = (b \<le> a)"

fun insert_desc :: "LeaderboardEntry \<Rightarrow> LeaderboardEntry list \<Rightarrow> LeaderboardEntry list" where
  "insert_desc r [] = [r]"
| "insert_desc r (x # xs) =
     (if points_ge (entry_points r) (entry_points x) then r # x # xs else x # insert_desc r xs)"

definition order_desc :: "LeaderboardEntry list \<Rightarrow> LeaderboardEntry list" where
  "order_desc rows = foldr insert_desc rows []"

definition select_query :: "string \<Rightarrow> nat \<Rightarrow> LeaderboardEntry list \<Rightarrow> LeaderboardEntry list" where
  "select_query a n rows = take n (order_desc (filter (\<lambda>r. entry_address r \<noteq> a) rows))"

text \<open>
  \<^verbatim>\<open>.upsert(row)\<close>: the row replaces the one with its primary key \<^verbatim>\<open>address\<close>, or is
  added when there is none.
\<close>

definition stored :: "upsert_row \<Rightarrow> LeaderboardEntry" where
  "stored r =
     \<lparr>entry_address = row_address r, entry_points = json_number (row_points r),
      entry_last_updated = row_last_updated r\<rparr>"

fun put_row :: "LeaderboardEntry \<Rightarrow> LeaderboardEntry list \<Rightarrow> LeaderboardEntry list" where
  "put_row r [] = [r]"
| "put_row r (x # xs) =
     (if entry_address x = entry_address r then r # xs else x # put_row r xs)"

section \<open>The component\<close>

definition fetchLeaderboard :: "env \<Rightarrow> state \<Rightarrow> state" where
  "fetchLeaderboard e s =
     (let s1 = s\<lparr>calls := calls s @ [Select UNISWAP_POOL 10]\<rparr>
      in case selectError e of
           Some err \<Rightarrow>
             s1\<lparr>console := console s1 @ [ConsoleError ''Error fetching leaderboard:'' err]\<rparr>
         | None \<Rightarrow> s1\<lparr>leaderboard := select_query UNISWAP_POOL 10 (table s1)\<rparr>)"

definition calculateLevel :: "number \<Rightarrow> number" where
  "calculateLevel p = fadd (Math_floor (fdiv p POINTS_PER_LEVEL)) (Num 1)"

text \<open>The \<^verbatim>\<open>catch\<close> and the \<^verbatim>\<open>finally\<close> block of \<^verbatim>\<open>calculatePoints\<close>.\<close>

definition catch_block :: "js_error \<Rightarrow> state \<Rightarrow> state" where
  "catch_block err s =
     s\<lparr>error := ''Error fetching data. Please check the address and try again.'',
       console := console s @ [ConsoleErrorBare err]\<rparr>"

definition finally_block :: "state \<Rightarrow> state" where
  "finally_block s = s\<lparr>loading := False\<rparr>"

text \<open>
  \<^verbatim>\<open>calculatePoints(addressToCheck = address)\<close>: the argument is \<open>None\<close> when the caller
  passes none, and the input field's text stands in. The result is the state once every
  request of the run is answered.
\<close>

definition default_argument :: "string option \<Rightarrow> state \<Rightarrow> string" where
  "default_argument arg s = (case arg of None \<Rightarrow> address s | Some a \<Rightarrow> a)"

definition calculatePoints :: "env \<Rightarrow> string option \<Rightarrow> state \<Rightarrow> state" where
  "calculatePoints e arg s =
     (let addressToCheck = default_argument arg s
      in if addressToCheck = [] then s\<lparr>error := ''Please enter an address''\<rparr>
         else if toLowerCase addressToCheck = toLowerCase UNISWAP_POOL
         then s\<lparr>error := ''This address is not eligible for points tracking''\<rparr>
         else
           let s1 = s\<lparr>loading := True, error := [], showPointsAnimation := False,
                      showLevelUp := False\<rparr>;
               s2 = s1\<lparr>calls := calls s1 @ [GetBlockNumber]\<rparr>
           in finally_block
               (case getBlockNumber e of
                  Inl err \<Rightarrow> catch_block err s2
                | Inr currentBlock \<Rightarrow>
                    let s3 = s2\<lparr>calls := calls s2 @
                                 [ReadContract CYGAAR_ADDRESS ''balanceOf'' addressToCheck]\<rparr>
                    in case balanceOf e CYGAAR_ADDRESS addressToCheck of
                         Inl err \<Rightarrow> catch_block err s3
                       | Inr bal \<Rightarrow>
                           let blocksHeld = Number_of_bigint (int currentBlock - START_BLOCK);
                               tokenBalance = Number_of_decimal (formatEther bal);
                               points = fmul (fmul tokenBalance POINTS_PER_TOKEN) blocksHeld;
                               level = calculateLevel points;
                               pd = \<lparr>balance = toFixed2 (numberToString e) tokenBalance,
                                     points = points, blocksHeld = blocksHeld, level = level\<rparr>;
                               s4 = s3\<lparr>pointsData := Some pd, showPointsAnimation := True,
                                       showLevelUp := True\<rparr>;
                               row = \<lparr>row_address = toLowerCase addressToCheck,
                                      row_points = points, row_last_updated = now e\<rparr>;
                               s5 = s4\<lparr>calls := calls s4 @ [Upsert row]\<rparr>
                           in case upsertError e of
                                Some err \<Rightarrow>
                                  s5\<lparr>console := console s5 @
                                       [ConsoleError ''Error updating leaderboard:'' err]\<rparr>
                              | None \<Rightarrow>
                                  fetchLeaderboard e
                                    (s5\<lparr>table := put_row (stored row) (table s5)\<rparr>)))"

text \<open>
  The callers: the effect on a wallet connection, and the button and the Enter key, which
  pass no argument.
\<close>

definition on_connect :: "env \<Rightarrow> string \<Rightarrow> state \<Rightarrow> state" where
  "on_connect e connectedAddress s =
     (if connectedAddress = [] then s
      else calculatePoints e (Some connectedAddress) (s\<lparr>address := connectedAddress\<rparr>))"

definition submit :: "env \<Rightarrow> state \<Rightarrow> state" where
  "submit e s = calculatePoints e None s"

text \<open>The state of a fresh component (the initial values of \<^verbatim>\<open>useState\<close>) over a table.\<close>

definition initial_state :: "LeaderboardEntry list \<Rightarrow> state" where
  "initial_state t =
     \<lparr>address = [], pointsData = None, loading = False, error = [], leaderboard = [],
      showPointsAnimation = False, showLevelUp = False, table = t, calls = [], console = []\<rparr>"

text \<open>The rows sent to \<^verbatim>\<open>upsert\<close> among a list of requests.\<close>

fun upserts :: "call list \<Rightarrow> upsert_row list" where
  "upserts [] = []"
| "upserts (Upsert r # cs) = r # upserts cs"
| "upserts (c # cs) = upserts cs"

section \<open>Example data\<close>

text \<open>
  An address in its checksum spelling and in lower case, the pool's address in lower case,
  and a row of the table under it.
\<close>

definition holder :: string where
  "holder = ''0xd8dA6BF26964aF9D7eEd9e03E53415D37aA96045''"

definition holder_lowercase :: string where
  "holder_lowercase = ''0xd8da6bf26964af9d7eed9e03e53415d37aa96045''"

definition pool_lowercase :: string where
  "pool_lowercase = ''0xbe01179f2291773d220eae55ee85b417f40342d0''"

definition pool_row :: LeaderboardEntry where
  "pool_row =
     \<lparr>entry_address = pool_lowercase, entry_points = Some 5,
      entry_last_updated = ''2025-01-01T00:00:00.000Z''\<rparr>"

text \<open>
  An outside in which both reads of the chain and the select succeed: the block height,
  the balance of every address, and the answer to the upsert are the parameters.
\<close>

definition chain_env :: "nat \<Rightarrow> 256 word \<Rightarrow> js_error option \<Rightarrow> env" where
  "chain_env cb bal ue =
     \<lparr>getBlockNumber = Inr cb, balanceOf = (\<lambda>token owner. Inr bal), upsertError = ue,
      selectError = None, now = ''2025-01-01T00:00:00.000Z'', numberToString = (\<lambda>x. [])\<rparr>"

section \<open>Rounding\<close>

lemma pow2_powi: "pow2 e = 2 powi e"
  by (simp add: pow2_def power_int_def inverse_eq_divide power_one_over)

lemma pow2_pos: "0 < pow2 e"
  by (simp add: pow2_powi)

lemma pow2_mono: "a \<le> b \<Longrightarrow> pow2 a \<le> pow2 b"
  by (simp add: pow2_powi power_int_increasing)

lemma pow2_strict_mono: "a < b \<Longrightarrow> pow2 a < pow2 b"
  by (simp add: pow2_powi power_int_strict_increasing)

lemma pow2_add: "pow2 (a + b) = pow2 a * pow2 b"
  by (simp add: pow2_powi power_int_add)

lemma pow2_nat: "0 \<le> e \<Longrightarrow> pow2 e = 2 ^ nat e"
  by (simp add: pow2_def)

lemma ilog2_ge1:
  assumes "1 \<le> x"
  shows "pow2 (ilog2 x) \<le> x \<and> x < pow2 (ilog2 x + 1)"
proof -
  define n where "n = \<lfloor>x\<rfloor>"
  have n1: "1 \<le> n" using assms by (simp add: n_def le_floor_iff)
  then have b: "2 ^ nat (bitlen n - 1) \<le> n" "n < 2 ^ nat (bitlen n)"
    using bitlen_bounds [of n] by auto
  have k1: "1 \<le> bitlen n" using n1 by (auto simp: bitlen_alt_def)
  have e: "ilog2 x = bitlen n - 1" using assms by (simp add: ilog2_def n_def)
  have "(of_int (2 ^ nat (bitlen n - 1)) :: rat) \<le> of_int n"
    using b(1) of_int_le_iff by blast
  also have "\<dots> \<le> x" by (simp add: n_def)
  finally have lo: "pow2 (bitlen n - 1) \<le> x" using k1 by (simp add: pow2_nat)
  have "n + 1 \<le> 2 ^ nat (bitlen n)" using b(2) by simp
  then have "(of_int (n + 1) :: rat) \<le> of_int (2 ^ nat (bitlen n))"
    using of_int_le_iff by blast
  moreover have "x < of_int (n + 1)" using floor_correct [of x] by (simp add: n_def)
  ultimately have "x < pow2 (bitlen n)" using k1 by (simp add: pow2_nat)
  with lo e show ?thesis by simp
qed

lemma ilog2_lt1:
  assumes "0 < x" "x < 1"
  shows "pow2 (ilog2 x) \<le> x \<and> x < pow2 (ilog2 x + 1)"
proof -
  define y where "y = 1 / x"
  define m where "m = \<lceil>y\<rceil> - 1"
  have y1: "1 < y" using assms by (simp add: y_def)
  have m1: "1 \<le> m" using y1 by (simp add: m_def less_ceiling_iff)
  have my: "of_int m < y" using ceiling_correct [of y] by (simp add: m_def)
  have ym: "y \<le> of_int (m + 1)" by (simp add: m_def)
  define k where "k = bitlen m"
  have b: "2 ^ nat (k - 1) \<le> m" "m < 2 ^ nat k"
    using bitlen_bounds [of m] m1 by (auto simp: k_def)
  have k1: "1 \<le> k" using m1 by (auto simp: bitlen_alt_def k_def)
  have e: "ilog2 x = - k" using assms by (simp add: ilog2_def k_def m_def y_def)
  have "m + 1 \<le> 2 ^ nat k" using b(2) by simp
  then have "(of_int (m + 1) :: rat) \<le> of_int (2 ^ nat k)" using of_int_le_iff by blast
  with ym have yk: "y \<le> 2 ^ nat k" by simp
  have "(of_int (2 ^ nat (k - 1)) :: rat) \<le> of_int m" using b(1) of_int_le_iff by blast
  then have "(2 :: rat) ^ nat (k - 1) \<le> of_int m" by simp
  with my have ky: "2 ^ nat (k - 1) < y" by linarith
  have p1: "pow2 (- k) = 1 / 2 ^ nat k" using k1 by (simp add: pow2_def)
  have p2: "pow2 (- k + 1) = 1 / 2 ^ nat (k - 1)"
    using k1 by (cases "k = 1") (auto simp: pow2_def)
  have "1 / 2 ^ nat k \<le> x" using yk assms(1) by (simp add: y_def field_simps)
  moreover have "x < 1 / 2 ^ nat (k - 1)" using ky assms(1) by (simp add: y_def field_simps)
  ultimately show ?thesis using e p1 p2 by simp
qed

lemma ilog2_bounds: "0 < x \<Longrightarrow> pow2 (ilog2 x) \<le> x \<and> x < pow2 (ilog2 x + 1)"
  using ilog2_ge1 [of x] ilog2_lt1 [of x] by (cases "1 \<le> x") auto

lemma ilog2_unique:
  assumes "0 < x" "pow2 e \<le> x" "x < pow2 (e + 1)"
  shows "ilog2 x = e"
proof (rule ccontr)
  assume ne: "ilog2 x \<noteq> e"
  have b: "pow2 (ilog2 x) \<le> x" "x < pow2 (ilog2 x + 1)" using ilog2_bounds [OF assms(1)] by auto
  show False
  proof (cases "ilog2 x < e")
    case True
    then have "pow2 (ilog2 x + 1) \<le> pow2 e" by (intro pow2_mono) simp
    with b(2) assms(2) show False by simp
  next
    case False
    with ne have "e + 1 \<le> ilog2 x" by simp
    then have "pow2 (e + 1) \<le> pow2 (ilog2 x)" by (rule pow2_mono)
    with b(1) assms(3) show False by simp
  qed
qed

lemma round64_at:
  assumes "pow2 e \<le> \<bar>x\<bar>" "\<bar>x\<bar> < pow2 (e + 1)"
  shows "round64 x =
     (let q = pow2 (max e (- 1022) - 52); r = of_int (round_half_even (x / q)) * q
      in if 2 ^ 1024 \<le> r then PosInf else if r \<le> - (2 ^ 1024) then NegInf else Num r)"
proof -
  have "0 < \<bar>x\<bar>" using assms(1) pow2_pos [of e] by linarith
  then have "ilog2 \<bar>x\<bar> = e" using assms by (intro ilog2_unique)
  moreover have "x \<noteq> 0" using \<open>0 < \<bar>x\<bar>\<close> by simp
  ultimately show ?thesis by (simp add: round64_def quantum_def)
qed

lemma round_half_even_near:
  assumes "\<bar>m - of_int k\<bar> < 1 / 2"
  shows "round_half_even m = k"
proof (cases "of_int k \<le> m")
  case True
  with assms have "m < of_int k + 1 / 2" by linarith
  with True have f: "\<lfloor>m\<rfloor> = k" by (intro floor_unique) auto
  with \<open>m < of_int k + 1 / 2\<close> show ?thesis by (simp add: round_half_even_def Let_def)
next
  case False
  with assms have b: "of_int k - 1 / 2 < m" "m < of_int k" by linarith+
  then have f: "\<lfloor>m\<rfloor> = k - 1" by (intro floor_unique) auto
  with b show ?thesis by (simp add: round_half_even_def Let_def)
qed

lemma round_half_even_of_int: "round_half_even (of_int k) = k"
  by (rule round_half_even_near) simp

text \<open>How a concrete rounding is checked: the exponent \<open>e\<close> and the significand \<open>k\<close> are
  given, and four comparisons of numerals remain.\<close>

lemma round64_near:
  assumes "pow2 e \<le> \<bar>x\<bar>" "\<bar>x\<bar> < pow2 (e + 1)" "- 1022 \<le> e"
    and "\<bar>x - of_int k * pow2 (e - 52)\<bar> < pow2 (e - 53)"
    and "\<bar>of_int k * pow2 (e - 52)\<bar> < 2 ^ 1024"
  shows "round64 x = Num (of_int k * pow2 (e - 52))"
proof -
  let ?q = "pow2 (e - 52)"
  have q: "0 < ?q" by (rule pow2_pos)
  have h: "pow2 (e - 53) = ?q / 2"
    using pow2_add [of "e - 53" 1] by (simp add: pow2_def)
  have "x / ?q - of_int k = (x - of_int k * ?q) / ?q"
    using q by (simp add: field_simps)
  then have "\<bar>x / ?q - of_int k\<bar> = \<bar>x - of_int k * ?q\<bar> / ?q"
    using q by (simp only: abs_divide abs_of_pos)
  also have "\<dots> < 1 / 2" using assms(4) q by (simp add: h field_simps)
  finally have "round_half_even (x / ?q) = k" by (rule round_half_even_near)
  moreover have "max e (- 1022) = e" using assms(3) by simp
  ultimately have "round64 x =
      (let r = of_int k * ?q
       in if 2 ^ 1024 \<le> r then PosInf else if r \<le> - (2 ^ 1024) then NegInf else Num r)"
    using round64_at [OF assms(1,2)] by (simp add: Let_def)
  moreover have "\<not> 2 ^ 1024 \<le> of_int k * ?q" "\<not> of_int k * ?q \<le> - (2 ^ 1024)"
    using assms(5) by linarith+
  ultimately show ?thesis by (simp add: Let_def)
qed

lemma round64_exact:
  assumes "pow2 e \<le> \<bar>x\<bar>" "\<bar>x\<bar> < pow2 (e + 1)" "- 1022 \<le> e"
    and "x = of_int k * pow2 (e - 52)" "\<bar>x\<bar> < 2 ^ 1024"
  shows "round64 x = Num x"
  using round64_near [OF assms(1-3), of k] assms(4,5) pow2_pos [of "e - 53"] by simp

lemma round64_of_int:
  assumes "\<bar>n\<bar> \<le> 2 ^ 53"
  shows "round64 (of_int n) = Num (of_int n)"
proof (cases "n = 0")
  case True
  then show ?thesis by (simp add: round64_def)
next
  case False
  define x :: rat where "x = of_int n"
  define e where "e = ilog2 \<bar>x\<bar>"
  have x1: "1 \<le> \<bar>x\<bar>" using False by (simp add: x_def flip: of_int_abs)
  then have b: "pow2 e \<le> \<bar>x\<bar>" "\<bar>x\<bar> < pow2 (e + 1)"
    using ilog2_bounds [of "\<bar>x\<bar>"] by (auto simp: e_def)
  have x53: "\<bar>x\<bar> \<le> pow2 53"
    using assms by (simp add: x_def pow2_def flip: of_int_abs)
  have big: "\<bar>x\<bar> < 2 ^ 1024"
  proof -
    have "pow2 53 < pow2 1024" by (rule pow2_strict_mono) simp
    with x53 show ?thesis by (simp add: pow2_def)
  qed
  have e0: "0 \<le> e"
  proof (rule ccontr)
    assume "\<not> 0 \<le> e"
    then have "pow2 (e + 1) \<le> pow2 0" by (intro pow2_mono) simp
    with b(2) x1 show False by (simp add: pow2_def)
  qed
  have e53: "e \<le> 53"
  proof (rule ccontr)
    assume "\<not> e \<le> 53"
    then have "pow2 53 < pow2 e" by (intro pow2_strict_mono) simp
    with b(1) x53 show False by simp
  qed
  have em: "- 1022 \<le> e" using e0 by simp
  show ?thesis
  proof (cases "e \<le> 52")
    case True
    have "pow2 (52 - e) * pow2 (e - 52) = 1"
      using pow2_add [of "52 - e" "e - 52"] by (simp add: pow2_def)
    moreover have "pow2 (52 - e) = of_int (2 ^ nat (52 - e))" using True by (simp add: pow2_def)
    ultimately have kx: "x = of_int (n * 2 ^ nat (52 - e)) * pow2 (e - 52)"
      by (simp add: x_def)
    have "round64 x = Num x" by (rule round64_exact [OF b(1) b(2) em kx big])
    then show ?thesis by (simp add: x_def)
  next
    case False
    with e53 have e: "e = 53" by simp
    have kx: "x = of_int (n div 2) * pow2 (e - 52)"
    proof -
      have "\<bar>x\<bar> = pow2 53" using b(1) x53 e by simp
      then have "\<bar>n\<bar> = 2 ^ 53"
        by (simp add: x_def pow2_def flip: of_int_abs)
      then have "even n" by (metis even_abs_add_iff even_add even_numeral even_power zero_less_numeral)
      then have "of_int (n div 2) * (2 :: rat) = of_int n" by (metis dvd_div_mult_self of_int_mult of_int_numeral)
      then show ?thesis using e by (simp add: x_def pow2_def)
    qed
    have "round64 x = Num x" by (rule round64_exact [OF b(1) b(2) em kx big])
    then show ?thesis by (simp add: x_def)
  qed
qed

lemma Number_of_bigint_exact: "\<bar>n\<bar> \<le> 2 ^ 53 \<Longrightarrow> Number_of_bigint n = Num (of_int n)"
  by (simp add: Number_of_bigint_def round64_of_int)

lemma round_half_even_bounds: "\<lfloor>m\<rfloor> \<le> round_half_even m \<and> round_half_even m \<le> \<lceil>m\<rceil>"
proof -
  have "\<lfloor>m\<rfloor> \<le> \<lceil>m\<rceil>" by (rule floor_le_ceiling)
  moreover have "\<lfloor>m\<rfloor> + 1 \<le> \<lceil>m\<rceil>" if "1 / 2 \<le> m - of_int \<lfloor>m\<rfloor>"
  proof -
    from that have "of_int \<lfloor>m\<rfloor> < m" by linarith
    then show ?thesis by (simp add: less_ceiling_iff add1_zle_eq)
  qed
  ultimately show ?thesis
    by (auto simp: round_half_even_def Let_def not_less)
qed

lemma round_half_even_abs_ge:
  assumes "of_int l \<le> \<bar>m\<bar>" "0 \<le> l"
  shows "l \<le> \<bar>round_half_even m\<bar>"
proof (cases "0 \<le> m")
  case True
  with assms have "l \<le> \<lfloor>m\<rfloor>" by (simp add: le_floor_iff)
  with round_half_even_bounds [of m] show ?thesis by linarith
next
  case False
  with assms have "m \<le> of_int (- l)" by simp
  then have "\<lceil>m\<rceil> \<le> - l" by (simp only: ceiling_le_iff)
  with round_half_even_bounds [of m] show ?thesis by linarith
qed

lemma round_half_even_abs_le:
  assumes "\<bar>m\<bar> \<le> of_int u"
  shows "\<bar>round_half_even m\<bar> \<le> u"
proof -
  from assms have "m \<le> of_int u" "of_int (- u) \<le> m" by (simp_all add: abs_le_iff)
  then have "\<lceil>m\<rceil> \<le> u" "- u \<le> \<lfloor>m\<rfloor>" by (simp_all only: ceiling_le_iff le_floor_iff)
  with round_half_even_bounds [of m] show ?thesis by linarith
qed

lemma round_half_even_sign:
  "0 \<le> m \<Longrightarrow> 0 \<le> round_half_even m" "m \<le> 0 \<Longrightarrow> round_half_even m \<le> 0"
proof -
  show "0 \<le> m \<Longrightarrow> 0 \<le> round_half_even m"
    using round_half_even_bounds [of m] by (simp add: order_trans [of 0 "\<lfloor>m\<rfloor>"])
  show "m \<le> 0 \<Longrightarrow> round_half_even m \<le> 0"
    using round_half_even_bounds [of m] by (simp add: order_trans [of _ "\<lceil>m\<rceil>" 0] ceiling_le_zero)
qed

text \<open>Rounding keeps a value between two powers of two of the normal range, and its sign.\<close>

lemma round64_between:
  assumes "pow2 a \<le> \<bar>x\<bar>" "\<bar>x\<bar> \<le> pow2 b" "- 1022 \<le> a" "b \<le> 1023"
  shows "\<exists>r. round64 x = Num r \<and> pow2 a \<le> \<bar>r\<bar> \<and> \<bar>r\<bar> \<le> pow2 b \<and> (0 < x \<longrightarrow> 0 < r) \<and> (x < 0 \<longrightarrow> r < 0)"
proof -
  define e where "e = ilog2 \<bar>x\<bar>"
  have x0: "0 < \<bar>x\<bar>" using assms(1) pow2_pos [of a] by linarith
  then have b: "pow2 e \<le> \<bar>x\<bar>" "\<bar>x\<bar> < pow2 (e + 1)"
    using ilog2_bounds [of "\<bar>x\<bar>"] by (auto simp: e_def)
  have ae: "a \<le> e"
  proof (rule ccontr)
    assume "\<not> a \<le> e"
    then have "pow2 (e + 1) \<le> pow2 a" by (intro pow2_mono) simp
    with b(2) assms(1) show False by simp
  qed
  have eb: "e \<le> b"
  proof (rule ccontr)
    assume "\<not> e \<le> b"
    then have "pow2 b < pow2 e" by (intro pow2_strict_mono) simp
    with b(1) assms(2) show False by simp
  qed
  define q where "q = pow2 (e - 52)"
  define k where "k = round_half_even (x / q)"
  define r where "r = of_int k * q"
  have q: "0 < q" by (simp add: q_def pow2_pos)
  have m: "\<bar>x / q\<bar> = \<bar>x\<bar> / q" using q by (simp add: abs_divide)
  define L :: int where "L = 2 ^ 52"
  define U :: int where "U = 2 ^ nat (b - e + 52)"
  have lo: "pow2 e = of_int L * q"
    using pow2_add [of 52 "e - 52"] by (simp add: q_def pow2_def L_def)
  have hi: "pow2 b = of_int U * q"
    using pow2_add [of "b - e + 52" "e - 52"] eb by (simp add: q_def pow2_nat U_def)
  have L0: "0 < L" by (simp add: L_def)
  have "of_int L \<le> \<bar>x / q\<bar>"
    using b(1) q unfolding lo m by (simp add: le_divide_eq)
  then have k_lo: "L \<le> \<bar>k\<bar>" unfolding k_def using L0 by (intro round_half_even_abs_ge) simp_all
  have "\<bar>x / q\<bar> \<le> of_int U"
    using assms(2) q unfolding hi m by (simp add: divide_le_eq)
  then have k_hi: "\<bar>k\<bar> \<le> U" unfolding k_def by (rule round_half_even_abs_le)
  have absr: "\<bar>r\<bar> = of_int \<bar>k\<bar> * q" using q by (simp add: r_def abs_mult)
  have "(of_int L :: rat) \<le> of_int \<bar>k\<bar>" using k_lo by (simp only: of_int_le_iff)
  then have "of_int L * q \<le> \<bar>r\<bar>"
    unfolding absr using q by (simp add: mult_right_mono del: of_int_abs)
  then have r_lo: "pow2 a \<le> \<bar>r\<bar>" using pow2_mono [OF ae] lo by linarith
  have "(of_int \<bar>k\<bar> :: rat) \<le> of_int U" using k_hi by (simp only: of_int_le_iff)
  then have r_hi: "\<bar>r\<bar> \<le> pow2 b"
    unfolding absr hi using q by (simp add: mult_right_mono del: of_int_abs)
  have "pow2 b \<le> pow2 1023" using assms(4) by (rule pow2_mono)
  also have "\<dots> < 2 ^ 1024" by (simp add: pow2_def)
  finally have big: "\<bar>r\<bar> < 2 ^ 1024" using r_hi by simp
  have mx: "max e (- 1022) = e" using ae assms(3) by simp
  have r': "of_int (round_half_even (x / pow2 (e - 52))) * pow2 (e - 52) = r"
    by (simp add: r_def k_def q_def)
  have n1: "\<not> 2 ^ 1024 \<le> r" "\<not> r \<le> - (2 ^ 1024)" using big by linarith+
  have "round64 x = Num r"
    by (simp only: round64_at [OF b] Let_def mx r' n1 if_False)
  moreover have "0 < r" if "0 < x"
  proof -
    have "0 \<le> k" unfolding k_def using that q by (intro round_half_even_sign) simp
    with k_lo L0 have "0 < k" by simp
    then show ?thesis using q by (simp add: r_def)
  qed
  moreover have "r < 0" if "x < 0"
  proof -
    have "k \<le> 0" unfolding k_def using that q by (intro round_half_even_sign) (simp add: divide_le_0_iff)
    with k_lo L0 have "k < 0" by simp
    then show ?thesis using q by (simp add: r_def mult_less_0_iff)
  qed
  ultimately show ?thesis using r_lo r_hi by blast
qed

section \<open>Numbers of the examples\<close>

lemma ppt: "POINTS_PER_TOKEN = Num (7737125245533627 / 77371252455336267181195264)"
  unfolding POINTS_PER_TOKEN_def
  using round64_near [of "- 34" "1 / 10 ^ 10" 7737125245533627]
  by (simp add: pow2_def)

lemma million_tokens:
  "fmul (Num 1000000) POINTS_PER_TOKEN = Num (7378697629483821 / 73786976294838206464)"
  using round64_near [of "- 14" "1000000 * (7737125245533627 / 2 ^ 86)" 7378697629483821]
  by (simp add: ppt pow2_def)

lemma one_point: "fmul (Num (7378697629483821 / 73786976294838206464)) (Num 10000) = Num 1"
  using round64_near [of 0 "7378697629483821 / 2 ^ 66 * 10000" 4503599627370496]
  by (simp add: pow2_def)

lemma ex1: "fmul (fmul (Num 1000000) POINTS_PER_TOKEN) (Num 10000) = Num 1"
  by (simp only: million_tokens one_point)

lemma round64_small: "round64 0 = Num 0" "round64 1 = Num 1" "round64 2 = Num 2"
  using round64_of_int [of 0] round64_of_int [of 1] round64_of_int [of 2] by simp_all

lemma level0: "calculateLevel (Num 0) = Num 1"
  by (simp add: calculateLevel_def POINTS_PER_LEVEL_def round64_small)

lemma level650: "calculateLevel (Num 650) = Num 2"
  by (simp add: calculateLevel_def POINTS_PER_LEVEL_def round64_small)

lemma lit649: "round64 (649999 / 1000) = Num (2858725834171089 / 4398046511104)"
  using round64_near [of 9 "649999 / 1000" 5717451668342178]
  by (simp add: pow2_def)

lemma div649:
  "fdiv (Num (2858725834171089 / 4398046511104)) POINTS_PER_LEVEL =
     Num (4503592698755685 / 4503599627370496)"
  using round64_near [of "- 1" "2858725834171089 / 4398046511104 / 650" 9007185397511370]
  by (simp add: POINTS_PER_LEVEL_def pow2_def)

lemma floor649: "\<lfloor>4503592698755685 / 4503599627370496 :: rat\<rfloor> = 0"
  by (rule floor_unique) simp_all

lemma level649: "calculateLevel (round64 (649999 / 1000)) = Num 1"
  by (simp add: calculateLevel_def lit649 div649 floor649 round64_small)

lemma tokens_1e6: "Number_of_decimal (formatEther (10 ^ 24)) = Num 1000000"
  using round64_of_int [of 1000000]
  by (simp add: Number_of_decimal_def formatEther_def)

lemma tokens_1: "Number_of_decimal (formatEther (10 ^ 18)) = Num 1"
  by (simp add: Number_of_decimal_def formatEther_def round64_small)

lemma neg_points:
  "fmul (fmul (Num 1) POINTS_PER_TOKEN) (Num (- 257810)) =
     Num (- (7609208143428895 / 295147905179352825856))"
  using round64_near [of "- 16" "7737125245533627 / 2 ^ 86 * (- 257810)" "- 7609208143428895"]
    round64_near [of "- 34" "7737125245533627 / 2 ^ 86" 7737125245533627]
  by (simp add: ppt pow2_def)

lemma neg_div:
  "fdiv (Num (- (7609208143428895 / 295147905179352825856))) POINTS_PER_LEVEL =
     Num (- (5993714722208607 / 151115727451828646838272))"
  using round64_near [of "- 25" "- (7609208143428895 / 2 ^ 68) / 650" "- 5993714722208607"]
  by (simp add: POINTS_PER_LEVEL_def pow2_def)

lemma neg_floor: "\<lfloor>- (5993714722208607 / 151115727451828646838272) :: rat\<rfloor> = - 1"
  by (rule floor_unique) simp_all

lemma neg_level: "calculateLevel (Num (- (7609208143428895 / 295147905179352825856))) = Num 0"
  by (simp add: calculateLevel_def neg_div neg_floor round64_small)

lemma show_nat_digit: "n < 10 \<Longrightarrow> show_nat n = [char_of (48 + n)]"
  by (subst show_nat.simps) simp

lemma show_100: "show_nat 100 = ''100''"
  by (simp add: show_nat.simps [of 100] show_nat.simps [of 10] show_nat_digit char_of_eq_iff)

lemma fixed2_one: "fixed2 1 = ''1.00''"
proof -
  have f: "\<lfloor>(1 :: rat) * 100 + 1 / 2\<rfloor> = 100" by (rule floor_unique) simp_all
  show ?thesis unfolding fixed2_def f by (simp add: Let_def show_100)
qed

section \<open>Exactness of the level, accuracy of the points\<close>

lemma round_half_even_ge: "of_int l \<le> m \<Longrightarrow> l \<le> round_half_even m"
  using round_half_even_bounds [of m] by (simp add: le_floor_iff order_trans [of l "\<lfloor>m\<rfloor>"])

lemma round_half_even_le: "m \<le> of_int u \<Longrightarrow> round_half_even m \<le> u"
  using round_half_even_bounds [of m] by (simp add: ceiling_le_iff order_trans [of _ "\<lceil>m\<rceil>" u])

lemma round_half_even_less:
  assumes "m < of_int u - 1 / 2"
  shows "round_half_even m < u"
proof -
  define f where "f = \<lfloor>m\<rfloor>"
  have fm: "of_int f \<le> m" "m < of_int f + 1" by (simp_all add: f_def) linarith
  have "of_int f < (of_int u :: rat)" using fm(1) assms by linarith
  then have fu: "f < u" by simp
  show ?thesis
  proof (cases "f + 1 < u")
    case True
    have "round_half_even m \<le> f + 1"
      by (simp add: round_half_even_def Let_def f_def)
    with True show ?thesis by simp
  next
    case False
    with fu have u: "u = f + 1" by simp
    have "m - of_int f < 1 / 2" using assms by (simp add: u)
    then have "round_half_even m = f" by (simp add: round_half_even_def Let_def f_def)
    with fu show ?thesis by simp
  qed
qed

text \<open>Rounding a positive value stays below a power of two above it, also in the subnormal range.\<close>

lemma round64_upper:
  assumes "0 < x" "x \<le> pow2 b" "- 1022 \<le> b" "b \<le> 1023"
  shows "\<exists>r. round64 x = Num r \<and> 0 \<le> r \<and> r \<le> pow2 b"
proof -
  define e where "e = ilog2 \<bar>x\<bar>"
  have ax: "\<bar>x\<bar> = x" using assms(1) by simp
  have b: "pow2 e \<le> \<bar>x\<bar>" "\<bar>x\<bar> < pow2 (e + 1)"
    using ilog2_bounds [of "\<bar>x\<bar>"] assms(1) by (auto simp: e_def)
  have eb: "e \<le> b"
  proof (rule ccontr)
    assume "\<not> e \<le> b"
    then have "pow2 b < pow2 e" by (intro pow2_strict_mono) simp
    with b(1) assms(2) ax show False by simp
  qed
  define E where "E = max e (- 1022)"
  have Eb: "E \<le> b" using eb assms(3) by (simp add: E_def)
  define q where "q = pow2 (E - 52)"
  define k where "k = round_half_even (x / q)"
  define r where "r = of_int k * q"
  define U :: int where "U = 2 ^ nat (b - E + 52)"
  have q: "0 < q" by (simp add: q_def pow2_pos)
  have hi: "pow2 b = of_int U * q"
    using pow2_add [of "b - E + 52" "E - 52"] Eb by (simp add: q_def pow2_nat U_def)
  have "x / q \<le> of_int U" using assms(2) q unfolding hi by (simp add: divide_le_eq)
  then have kU: "k \<le> U" unfolding k_def by (rule round_half_even_le)
  have k0: "0 \<le> k" unfolding k_def using assms(1) q by (intro round_half_even_sign) simp
  have r0: "0 \<le> r" using k0 q by (simp add: r_def)
  have "(of_int k :: rat) \<le> of_int U" using kU by (simp only: of_int_le_iff)
  then have rb: "r \<le> pow2 b" unfolding r_def hi using q by (simp add: mult_right_mono)
  have "pow2 b \<le> pow2 1023" using assms(4) by (rule pow2_mono)
  also have "\<dots> < 2 ^ 1024" by (simp add: pow2_def)
  finally have n1: "\<not> 2 ^ 1024 \<le> r" "\<not> r \<le> - (2 ^ 1024)" using rb r0 by linarith+
  have r': "of_int (round_half_even (x / pow2 (max e (- 1022) - 52))) * pow2 (max e (- 1022) - 52) = r"
    by (simp add: r_def k_def q_def E_def)
  have "round64 x = Num r"
    by (simp only: round64_at [OF b] Let_def r' n1 if_False)
  with r0 rb show ?thesis by blast
qed

text \<open>A binary64 value is a fixed point of the rounding.\<close>

lemma binary64_grid:
  assumes "round64 p = Num p" "0 < p"
  shows "\<exists>P. p = of_int P * pow2 (max (ilog2 p) (- 1022) - 52)"
proof -
  have ap: "\<bar>p\<bar> = p" using assms(2) by simp
  have b: "pow2 (ilog2 p) \<le> \<bar>p\<bar>" "\<bar>p\<bar> < pow2 (ilog2 p + 1)"
    using ilog2_bounds [OF assms(2)] ap by auto
  define r where "r = of_int (round_half_even (p / pow2 (max (ilog2 p) (- 1022) - 52))) *
      pow2 (max (ilog2 p) (- 1022) - 52)"
  have "Num p = (if 2 ^ 1024 \<le> r then PosInf else if r \<le> - (2 ^ 1024) then NegInf else Num r)"
    using round64_at [OF b] assms(1) by (simp only: Let_def r_def)
  then have "p = r" by (simp split: if_splits)
  then show ?thesis unfolding r_def by blast
qed

lemma pow2_9: "pow2 9 = 512"
  by (simp add: pow2_def)

lemma pow2_shift9: "pow2 (a + 9) = pow2 a * 512"
  by (simp only: pow2_add pow2_9)

lemma quotient_floor:
  assumes rp: "round64 p = Num p" and p1: "1 \<le> p" and p54: "p < 2 ^ 54"
  shows "\<exists>v. round64 (p / 650) = Num v \<and> \<lfloor>v\<rfloor> = \<lfloor>p / 650\<rfloor>"
proof -
  have p0: "0 < p" using p1 by simp
  define ep where "ep = ilog2 p"
  define qp where "qp = pow2 (ep - 52)"
  have bp: "pow2 ep \<le> p" "p < pow2 (ep + 1)" using ilog2_bounds [OF p0] by (auto simp: ep_def)
  have ep0: "0 \<le> ep"
  proof (rule ccontr)
    assume "\<not> 0 \<le> ep"
    then have "pow2 (ep + 1) \<le> pow2 0" by (intro pow2_mono) simp
    with bp(2) p1 show False by (simp add: pow2_def)
  qed
  have ep53: "ep \<le> 53"
  proof (rule ccontr)
    assume "\<not> ep \<le> 53"
    then have "pow2 54 \<le> pow2 ep" by (intro pow2_mono) simp
    with bp(1) p54 show False by (simp add: pow2_def)
  qed
  have "max ep (- 1022) = ep" using ep0 by simp
  then obtain P where P: "p = of_int P * qp"
    using binary64_grid [OF rp p0] by (auto simp: ep_def qp_def)
  have qp0: "0 < qp" by (simp add: qp_def pow2_pos)
  define y where "y = p / 650"
  define k where "k = \<lfloor>y\<rfloor>"
  define ey where "ey = ilog2 y"
  define qy where "qy = pow2 (ey - 52)"
  have y0: "0 < y" using p0 by (simp add: y_def)
  have ay: "\<bar>y\<bar> = y" using y0 by simp
  have yb: "pow2 ey \<le> y" "y < pow2 (ey + 1)" using ilog2_bounds [OF y0] by (auto simp: ey_def)
  have ky: "of_int k \<le> y" "y < of_int (k + 1)"
    using floor_correct [of y] by (simp_all add: k_def)
  have k0: "0 \<le> k" using y0 by (simp add: k_def)
  have ey_lo: "- 10 \<le> ey"
  proof (rule ccontr)
    assume "\<not> - 10 \<le> ey"
    then have "pow2 (ey + 1) \<le> pow2 (- 10)" by (intro pow2_mono) simp
    with yb(2) have "y < 1 / 1024" by (simp add: pow2_def)
    with p1 show False by (simp add: y_def)
  qed
  have ey_hi: "ey \<le> ep - 9"
  proof (rule ccontr)
    assume "\<not> ey \<le> ep - 9"
    then have "pow2 (ep - 8) \<le> pow2 ey" by (intro pow2_mono) simp
    with yb(1) have "pow2 (ep - 8) \<le> y" by simp
    moreover have "pow2 (ep + 1) = pow2 (ep - 8) * 512"
    proof -
      have e1: "ep + 1 = ep - 8 + 9" by simp
      show ?thesis by (subst e1) (rule pow2_shift9)
    qed
    ultimately have "pow2 (ep + 1) \<le> y * 512" by simp
    also have "\<dots> \<le> p" using p0 by (simp add: y_def)
    finally show False using bp(2) by simp
  qed
  have mx: "max ey (- 1022) = ey" using ey_lo by simp
  have qy0: "0 < qy" by (simp add: qy_def pow2_pos)
  have qyp: "qy * 512 \<le> qp"
  proof -
    have "pow2 (ey - 52) \<le> pow2 (ep - 61)" using ey_hi by (intro pow2_mono) simp
    moreover have "qp = pow2 (ep - 61) * 512"
    proof -
      have e1: "ep - 52 = ep - 61 + 9" by simp
      show ?thesis unfolding qp_def by (subst e1) (rule pow2_shift9)
    qed
    ultimately show ?thesis by (simp add: qy_def)
  qed
  \<comment> \<open>the integers are on the grid of the quotient\<close>
  define s where "s = nat (52 - ey)"
  have ey52: "ey \<le> 52" using ey_hi ep53 by simp
  have grid_y: "of_int j = of_int (j * 2 ^ s) * qy" for j
  proof -
    have "pow2 (52 - ey) * pow2 (ey - 52) = 1"
      using pow2_add [of "52 - ey" "ey - 52"] by (simp add: pow2_def)
    moreover have "pow2 (52 - ey) = 2 ^ s" using ey52 by (simp add: pow2_def s_def)
    ultimately show ?thesis by (simp add: qy_def)
  qed
  \<comment> \<open>the multiples of 650 are on the grid of the dividend\<close>
  have grid_p: "\<exists>J. of_int (650 * (k + 1)) = of_int J * qp"
  proof (cases "ep \<le> 52")
    case True
    have "pow2 (52 - ep) * pow2 (ep - 52) = 1"
      using pow2_add [of "52 - ep" "ep - 52"] by (simp add: pow2_def)
    moreover have "pow2 (52 - ep) = 2 ^ nat (52 - ep)" using True by (simp add: pow2_def)
    ultimately have "of_int (650 * (k + 1)) = of_int (650 * (k + 1) * 2 ^ nat (52 - ep)) * qp"
      by (simp add: qp_def)
    then show ?thesis by blast
  next
    case False
    with ep53 have "ep = 53" by simp
    then have "qp = 2" by (simp add: qp_def pow2_def)
    then have "of_int (650 * (k + 1)) = of_int (325 * (k + 1)) * qp" by simp
    then show ?thesis by blast
  qed
  then obtain J where J: "of_int (650 * (k + 1)) = of_int J * qp" by blast
  have gap: "qp \<le> of_int (650 * (k + 1)) - p"
  proof -
    have "p < of_int (650 * (k + 1))" using ky(2) by (simp add: y_def)
    then have "of_int P * qp < of_int J * qp" using P J by simp
    then have "(of_int P :: rat) < of_int J" using qp0 by (simp add: mult_less_cancel_right)
    then have "P + 1 \<le> J" by simp
    then have "(of_int (P + 1) :: rat) \<le> of_int J" by (simp only: of_int_le_iff)
    then have "of_int (P + 1) * qp \<le> of_int J * qp" using qp0 by (simp add: mult_right_mono)
    then show ?thesis unfolding J P by (simp add: algebra_simps)
  qed
  have away: "y < of_int (k + 1) - qy / 2"
  proof -
    have "qy * 512 \<le> of_int (650 * (k + 1)) - y * 650" using gap qyp by (simp add: y_def)
    then have "y * 650 + qy * 512 \<le> of_int (k + 1) * 650" by simp
    moreover have "qy / 2 * 650 < qy * 512" using qy0 by simp
    ultimately have "(y + qy / 2) * 650 < of_int (k + 1) * 650" by (simp add: algebra_simps)
    then show ?thesis by simp
  qed
  define m where "m = y / qy"
  define c where "c = round_half_even m"
  define v where "v = of_int c * qy"
  have "of_int (k * 2 ^ s) * qy \<le> y" using ky(1) by (simp only: grid_y [symmetric])
  then have "of_int (k * 2 ^ s) \<le> m" using qy0 by (simp add: m_def le_divide_eq)
  then have c_lo: "k * 2 ^ s \<le> c" unfolding c_def by (rule round_half_even_ge)
  have "y < of_int ((k + 1) * 2 ^ s) * qy - qy / 2" using away by (simp only: grid_y [symmetric])
  then have "y < (of_int ((k + 1) * 2 ^ s) - 1 / 2) * qy" by (simp add: algebra_simps)
  then have "m < of_int ((k + 1) * 2 ^ s) - 1 / 2" using qy0 by (simp add: m_def divide_less_eq)
  then have c_hi: "c < (k + 1) * 2 ^ s" unfolding c_def by (rule round_half_even_less)
  have "(of_int (k * 2 ^ s) :: rat) \<le> of_int c" using c_lo by (simp only: of_int_le_iff)
  then have "of_int (k * 2 ^ s) * qy \<le> v" unfolding v_def using qy0 by (simp add: mult_right_mono)
  then have v_lo: "of_int k \<le> v" by (simp only: grid_y [symmetric])
  have "(of_int c :: rat) < of_int ((k + 1) * 2 ^ s)" using c_hi by (simp only: of_int_less_iff)
  then have "v < of_int ((k + 1) * 2 ^ s) * qy" unfolding v_def using qy0 by (simp add: mult_strict_right_mono)
  then have v_hi: "v < of_int (k + 1)" by (simp only: grid_y [symmetric])
  have fl: "\<lfloor>v\<rfloor> = k" using v_lo v_hi by (intro floor_unique) simp_all
  have "y * 650 < 2 ^ 54" using p54 by (simp add: y_def)
  then have "of_int k < (2 ^ 54 :: rat)" using ky(1) y0 by linarith
  then have "v < 2 ^ 54 + 1" using v_hi by simp
  moreover have "0 \<le> v" using v_lo k0 by (simp add: order_trans [of 0 "of_int k"])
  ultimately have n1: "\<not> 2 ^ 1024 \<le> v" "\<not> v \<le> - (2 ^ 1024)" by simp_all
  have v': "of_int (round_half_even (y / pow2 (ey - 52))) * pow2 (ey - 52) = v"
    by (simp add: v_def c_def m_def qy_def)
  have yb': "pow2 ey \<le> \<bar>y\<bar>" "\<bar>y\<bar> < pow2 (ey + 1)" using yb ay by simp_all
  have "round64 y = Num v"
    by (simp only: round64_at [OF yb'] Let_def mx v' n1 if_False)
  with fl show ?thesis unfolding y_def k_def by blast
qed

lemma pow2_split: "pow2 a = pow2 (a - b) * pow2 b"
  by (simp add: pow2_add [symmetric])

lemma pow2_values: "pow2 53 = 2 ^ 53" "pow2 1 = 2" "pow2 0 = 1"
  by (simp_all add: pow2_def)

lemma round64_on_grid:
  assumes "x \<noteq> 0" "x = of_int M * quantum x" "\<bar>x\<bar> < 2 ^ 1024"
  shows "round64 x = Num x"
proof -
  have q: "0 < quantum x" by (simp add: quantum_def pow2_pos)
  have "x / quantum x = of_int M" using assms(2) q by (simp add: divide_eq_eq)
  then have "round_half_even (x / quantum x) = M" by (simp only: round_half_even_of_int)
  then have r: "of_int (round_half_even (x / quantum x)) * quantum x = x" using assms(2) by simp
  have n1: "\<not> 2 ^ 1024 \<le> x" "\<not> x \<le> - (2 ^ 1024)" using assms(3) by linarith+
  show ?thesis by (simp only: round64_def Let_def assms(1) r n1 if_False)
qed

text \<open>What the rounding returns is a binary64 value: rounding it again changes nothing.\<close>

lemma round64_idem:
  assumes "round64 x = Num r"
  shows "round64 r = Num r"
proof (cases "r = 0")
  case True
  then show ?thesis by (simp add: round64_def)
next
  case False
  have x0: "x \<noteq> 0" using assms False by (auto simp: round64_def)
  define e where "e = ilog2 \<bar>x\<bar>"
  define E where "E = max e (- 1022)"
  define q where "q = pow2 (E - 52)"
  define K where "K = round_half_even (x / q)"
  have q: "0 < q" by (simp add: q_def pow2_pos)
  have b: "pow2 e \<le> \<bar>x\<bar>" "\<bar>x\<bar> < pow2 (e + 1)"
    using ilog2_bounds [of "\<bar>x\<bar>"] x0 by (auto simp: e_def)
  have "Num r = (if 2 ^ 1024 \<le> of_int K * q then PosInf
                 else if of_int K * q \<le> - (2 ^ 1024) then NegInf else Num (of_int K * q))"
    using round64_at [OF b] assms by (simp only: Let_def K_def q_def E_def)
  then have r: "r = of_int K * q" and big: "\<bar>r\<bar> < 2 ^ 1024"
    by (auto split: if_splits)
  have K0: "K \<noteq> 0" using False r by auto
  \<comment> \<open>the significand has at most 53 bits\<close>
  have eE: "e \<le> E" by (simp add: E_def)
  have "pow2 (e + 1) \<le> pow2 (E + 1)" using eE by (intro pow2_mono) simp
  moreover have "pow2 (E + 1) = of_int (2 ^ 53) * q"
    using pow2_split [of "E + 1" "E - 52"] by (simp add: q_def pow2_values)
  ultimately have "\<bar>x\<bar> \<le> of_int (2 ^ 53) * q" using b(2) by linarith
  then have "\<bar>x / q\<bar> \<le> of_int (2 ^ 53)" using q by (simp add: abs_divide divide_le_eq)
  then have K53: "\<bar>K\<bar> \<le> 2 ^ 53" unfolding K_def by (rule round_half_even_abs_le)
  have absr: "\<bar>r\<bar> = of_int \<bar>K\<bar> * q" using q by (simp add: r abs_mult)
  have r_hi: "\<bar>r\<bar> \<le> pow2 (E + 1)"
  proof -
    have "(of_int \<bar>K\<bar> :: rat) \<le> of_int (2 ^ 53)" using K53 by (simp only: of_int_le_iff)
    then have "of_int \<bar>K\<bar> * q \<le> of_int (2 ^ 53) * q" using q by (simp add: mult_right_mono del: of_int_abs)
    then show ?thesis using \<open>pow2 (E + 1) = of_int (2 ^ 53) * q\<close> absr by simp
  qed
  define er where "er = ilog2 \<bar>r\<bar>"
  define Er where "Er = max er (- 1022)"
  have r0: "0 < \<bar>r\<bar>" using False by simp
  have br: "pow2 er \<le> \<bar>r\<bar>" "\<bar>r\<bar> < pow2 (er + 1)"
    using ilog2_bounds [OF r0] by (auto simp: er_def)
  have E1022: "- 1022 \<le> E" by (simp add: E_def)
  have er_le: "er \<le> E + 1"
  proof (rule ccontr)
    assume "\<not> er \<le> E + 1"
    then have "pow2 (E + 1) < pow2 er" by (intro pow2_strict_mono) simp
    with br(1) r_hi show False by simp
  qed
  have "\<exists>M. r = of_int M * pow2 (Er - 52)"
  proof (cases "er \<le> E")
    case True
    then have ErE: "Er \<le> E" using E1022 by (simp add: Er_def)
    have "pow2 (E - Er) * pow2 (Er - 52) = q"
      using pow2_split [of "E - 52" "Er - 52"] by (simp add: q_def)
    moreover have "pow2 (E - Er) = of_int (2 ^ nat (E - Er))" using ErE by (simp add: pow2_def)
    ultimately have "r = of_int (K * 2 ^ nat (E - Er)) * pow2 (Er - 52)"
      by (simp add: r mult.assoc)
    then show ?thesis by blast
  next
    case False
    with er_le have er: "er = E + 1" by simp
    then have Er: "Er = E + 1" using E1022 by (simp add: Er_def)
    have "\<bar>r\<bar> = pow2 (E + 1)" using br(1) r_hi er by simp
    then have "of_int \<bar>K\<bar> * q = of_int (2 ^ 53) * q"
      using absr \<open>pow2 (E + 1) = of_int (2 ^ 53) * q\<close> by simp
    then have "(of_int \<bar>K\<bar> :: rat) = of_int (2 ^ 53)" using q by simp
    then have "\<bar>K\<bar> = 2 ^ 53" by (simp only: of_int_eq_iff)
    then have "even K" by (metis even_abs_add_iff even_add even_numeral even_power zero_less_numeral)
    then have "of_int (K div 2) * (2 :: rat) = of_int K"
      by (metis dvd_div_mult_self of_int_mult of_int_numeral)
    moreover have "pow2 (E + 1 - 52) = 2 * q"
      using pow2_split [of "E + 1 - 52" "E - 52"] by (simp add: q_def pow2_values)
    ultimately have "r = of_int (K div 2) * pow2 (Er - 52)" by (simp add: r Er)
    then show ?thesis by blast
  qed
  then obtain M where "r = of_int M * quantum r" by (auto simp: quantum_def Er_def er_def)
  from round64_on_grid [OF \<open>r \<noteq> 0\<close> this big] show ?thesis .
qed

lemma fmul_binary64: "fmul x y = Num r \<Longrightarrow> round64 r = Num r"
  by (cases x; cases y) (auto simp: round64_idem split: if_splits)

lemma pow2_m9: "pow2 (- 9) = 1 / 512"
  by (simp add: pow2_def)

text \<open>
  The level of a binary64 number of points from 0 to \<open>2 ^ 54\<close> is the floor of the exact
  quotient plus one: neither the division nor the addition loses anything there.
\<close>

lemma calculateLevel_exact:
  assumes "round64 p = Num p" "0 \<le> p" "p < 2 ^ 54"
  shows "calculateLevel (Num p) = Num (of_int (\<lfloor>p / 650\<rfloor> + 1))"
proof -
  have "\<exists>v. round64 (p / 650) = Num v \<and> \<lfloor>v\<rfloor> = \<lfloor>p / 650\<rfloor>"
  proof (cases "1 \<le> p")
    case True
    then show ?thesis using quotient_floor [OF assms(1) True assms(3)] by simp
  next
    case False
    show ?thesis
    proof (cases "p = 0")
      case True
      then show ?thesis by (simp add: round64_small)
    next
      case nz: False
      have y: "0 < p / 650" "p / 650 \<le> pow2 (- 9)" using nz assms(2) False by (simp_all add: pow2_m9)
      obtain v where v: "round64 (p / 650) = Num v" "0 \<le> v" "v \<le> pow2 (- 9)"
        using round64_upper [OF y] by auto
      have "\<lfloor>v\<rfloor> = 0" using v(2,3) by (intro floor_unique) (simp_all add: pow2_m9)
      moreover have "\<lfloor>p / 650\<rfloor> = 0" using y by (intro floor_unique) (simp_all add: pow2_m9)
      ultimately show ?thesis using v(1) by simp
    qed
  qed
  then obtain v where v: "round64 (p / 650) = Num v" "\<lfloor>v\<rfloor> = \<lfloor>p / 650\<rfloor>" by blast
  define k where "k = \<lfloor>p / 650\<rfloor>"
  have k0: "0 \<le> k" using assms(2) by (simp add: k_def)
  have "of_int k \<le> p / 650" using of_int_floor_le [of "p / 650"] by (simp only: k_def)
  moreover have "p / 650 < 2 ^ 45" using assms(3) by simp
  ultimately have "of_int k < (of_int (2 ^ 45) :: rat)" by simp
  then have "k < 2 ^ 45" by (simp only: of_int_less_iff)
  then have "\<bar>k + 1\<bar> \<le> 2 ^ 53" using k0 by simp
  then have "round64 (of_int (k + 1)) = Num (of_int (k + 1))" by (rule round64_of_int)
  then have "round64 (of_int k + 1) = Num (of_int (k + 1))" by simp
  then show ?thesis
    by (simp add: calculateLevel_def POINTS_PER_LEVEL_def v k_def [symmetric])
qed

text \<open>
  Above \<open>2 ^ 54\<close> the rounded quotient can reach the next integer: at
  \<open>650 * (2 ^ 45 + 1) - 2\<close> points, a binary64 number, the level is one more than the
  floor of the exact quotient plus one.
\<close>

lemma calculateLevel_beyond:
  "round64 22869841857741448 = Num 22869841857741448"
  "calculateLevel (Num 22869841857741448) = Num 35184372088834"
  "\<lfloor>22869841857741448 / 650 :: rat\<rfloor> + 1 = 35184372088833"
proof -
  show "round64 22869841857741448 = Num 22869841857741448"
    using round64_near [of 54 22869841857741448 5717460464435362] by (simp add: pow2_def)
  have "round64 (22869841857741448 / 650) = Num 35184372088833"
    using round64_near [of 45 "22869841857741448 / 650" 4503599627370624] by (simp add: pow2_def)
  moreover have "round64 35184372088834 = Num 35184372088834"
    using round64_of_int [of 35184372088834] by simp
  ultimately show "calculateLevel (Num 22869841857741448) = Num 35184372088834"
    by (simp add: calculateLevel_def POINTS_PER_LEVEL_def)
  have "\<lfloor>22869841857741448 / 650 :: rat\<rfloor> = 35184372088832"
    by (rule floor_unique) simp_all
  then show "\<lfloor>22869841857741448 / 650 :: rat\<rfloor> + 1 = 35184372088833" by simp
qed

lemma round_half_even_error: "\<bar>of_int (round_half_even m) - m\<bar> \<le> 1 / 2"
proof -
  define d where "d = m - of_int \<lfloor>m\<rfloor>"
  have d: "0 \<le> d" "d < 1" using floor_correct [of m] by (simp_all add: d_def)
  have m: "m = of_int \<lfloor>m\<rfloor> + d" by (simp add: d_def)
  consider "d < 1 / 2" | "1 / 2 < d" | "d = 1 / 2" by linarith
  then show ?thesis
  proof cases
    case 1
    then have "round_half_even m = \<lfloor>m\<rfloor>" by (simp add: round_half_even_def Let_def d_def)
    then have "of_int (round_half_even m) - m = - d" by (simp add: d_def)
    then show ?thesis using d 1 by simp
  next
    case 2
    then have "round_half_even m = \<lfloor>m\<rfloor> + 1" by (simp add: round_half_even_def Let_def d_def)
    then have "of_int (round_half_even m) - m = 1 - d" by (simp add: d_def)
    then show ?thesis using d 2 by simp
  next
    case 3
    then have "round_half_even m = \<lfloor>m\<rfloor> \<or> round_half_even m = \<lfloor>m\<rfloor> + 1"
      by (simp add: round_half_even_def Let_def d_def)
    then have "of_int (round_half_even m) - m = - d \<or> of_int (round_half_even m) - m = 1 - d"
      by (auto simp: d_def)
    then show ?thesis using 3 by auto
  qed
qed

text \<open>In the normal range the rounding changes a value by at most one part in \<open>2 ^ 53\<close>.\<close>

lemma round64_error:
  assumes "pow2 a \<le> \<bar>x\<bar>" "\<bar>x\<bar> \<le> pow2 b" "- 1022 \<le> a" "b \<le> 1023"
  shows "\<exists>r. round64 x = Num r \<and> \<bar>r - x\<bar> \<le> \<bar>x\<bar> / 2 ^ 53"
proof -
  obtain r where r: "round64 x = Num r" using round64_between [OF assms] by blast
  define e where "e = ilog2 \<bar>x\<bar>"
  define q where "q = pow2 (e - 52)"
  define K where "K = round_half_even (x / q)"
  have x0: "0 < \<bar>x\<bar>" using assms(1) pow2_pos [of a] by linarith
  have b: "pow2 e \<le> \<bar>x\<bar>" "\<bar>x\<bar> < pow2 (e + 1)"
    using ilog2_bounds [OF x0] by (auto simp: e_def)
  have ae: "a \<le> e"
  proof (rule ccontr)
    assume "\<not> a \<le> e"
    then have "pow2 (e + 1) \<le> pow2 a" by (intro pow2_mono) simp
    with b(2) assms(1) show False by simp
  qed
  have mx: "max e (- 1022) = e" using ae assms(3) by simp
  have q: "0 < q" by (simp add: q_def pow2_pos)
  have "Num r = (if 2 ^ 1024 \<le> of_int K * q then PosInf
                 else if of_int K * q \<le> - (2 ^ 1024) then NegInf else Num (of_int K * q))"
    using round64_at [OF b] r by (simp only: Let_def mx K_def q_def)
  then have rK: "r = of_int K * q" by (auto split: if_splits)
  have "r - x = (of_int K - x / q) * q" using q by (simp add: rK algebra_simps)
  then have "\<bar>r - x\<bar> = \<bar>of_int K - x / q\<bar> * q" using q by (simp add: abs_mult)
  also have "\<dots> \<le> 1 / 2 * q"
    using round_half_even_error [of "x / q"] q unfolding K_def by (intro mult_right_mono) simp_all
  also have "1 / 2 * q = pow2 e / 2 ^ 53"
    using pow2_split [of e "e - 52"] by (simp add: q_def pow2_def)
  also have "\<dots> \<le> \<bar>x\<bar> / 2 ^ 53" using b(1) by (simp add: divide_right_mono)
  finally show ?thesis using r by blast
qed

lemma formatEther_between:
  assumes "bal \<noteq> 0"
  shows "0 < formatEther bal" "pow2 (- 60) \<le> \<bar>formatEther bal\<bar>" "\<bar>formatEther bal\<bar> \<le> pow2 197"
proof -
  define n where "n = unat bal"
  have n1: "1 \<le> n" using assms by (simp add: n_def unat_gt_0 Suc_le_eq)
  have "n < 2 ^ 256" using unsigned_less [of bal, where 'a = nat] by (simp add: n_def)
  then have n2: "(of_nat n :: rat) \<le> 2 ^ 256"
    by (metis less_imp_le of_nat_le_iff of_nat_numeral of_nat_power)
  have n1': "(1 :: rat) \<le> of_nat n" using n1 by simp
  have x: "formatEther bal = of_nat n / 10 ^ 18" by (simp add: formatEther_def n_def)
  show x0: "0 < formatEther bal" using n1 by (simp add: x)
  have "1 / 2 ^ 60 \<le> (1 :: rat) / 10 ^ 18" by simp
  also have "\<dots> \<le> formatEther bal" unfolding x using n1' by (simp add: divide_right_mono)
  finally show "pow2 (- 60) \<le> \<bar>formatEther bal\<bar>" using x0 by (simp add: pow2_def)
  have "formatEther bal \<le> 2 ^ 256 / 10 ^ 18" unfolding x using n2 by (simp add: divide_right_mono)
  also have "\<dots> \<le> 2 ^ 197" by simp
  finally show "\<bar>formatEther bal\<bar> \<le> pow2 197" using x0 by (simp add: pow2_def)
qed

lemma fourth_power_bounds:
  "(1 + 1 / 2 ^ 53) * (1 + 1 / 2 ^ 53) * (1 + 1 / 2 ^ 53) * (1 + 1 / 2 ^ 53) \<le> (1 + 1 / 2 ^ 50 :: rat)"
  "(1 - 1 / 2 ^ 50 :: rat) \<le> (1 - 1 / 2 ^ 53) * (1 - 1 / 2 ^ 53) * (1 - 1 / 2 ^ 53) * (1 - 1 / 2 ^ 53)"
  by simp_all

lemma error_interval:
  fixes r x :: rat
  assumes "\<bar>r - x\<bar> \<le> \<bar>x\<bar> / 2 ^ 53" "0 < x"
  shows "x * (1 - 1 / 2 ^ 53) \<le> r" "r \<le> x * (1 + 1 / 2 ^ 53)"
proof -
  have "\<bar>r - x\<bar> \<le> x / 2 ^ 53" using assms by simp
  then have "- (x / 2 ^ 53) \<le> r - x" "r - x \<le> x / 2 ^ 53" by linarith+
  then show "x * (1 - 1 / 2 ^ 53) \<le> r" "r \<le> x * (1 + 1 / 2 ^ 53)"
    by (simp_all add: algebra_simps)
qed

text \<open>
  The points of a positive balance over a positive number of blocks up to \<open>2 ^ 53\<close> are
  within one part in \<open>2 ^ 50\<close> of the exact product of the balance in tokens, \<open>10\<close> to the
  power \<open>- 10\<close> and the number of blocks: four roundings, of the balance, of the constant
  and of the two products.
\<close>

lemma points_accuracy:
  assumes "bal \<noteq> 0" "0 < n" "n \<le> 2 ^ 53"
  shows "\<exists>r. fmul (fmul (Number_of_decimal (formatEther bal)) POINTS_PER_TOKEN) (Num (of_int n)) = Num r \<and>
           \<bar>r - formatEther bal * (1 / 10 ^ 10) * of_int n\<bar> \<le>
             formatEther bal * (1 / 10 ^ 10) * of_int n / 2 ^ 50"
proof -
  define x where "x = formatEther bal"
  define c :: rat where "c = 1 / 10 ^ 10"
  define N :: rat where "N = of_int n"
  define u :: rat where "u = 1 / 2 ^ 53"
  have x: "0 < x" "pow2 (- 60) \<le> \<bar>x\<bar>" "\<bar>x\<bar> \<le> pow2 197"
    using formatEther_between [OF assms(1)] by (simp_all add: x_def)
  have c0: "0 < c" by (simp add: c_def)
  have c: "pow2 (- 34) \<le> \<bar>c\<bar>" "\<bar>c\<bar> \<le> pow2 (- 33)" by (simp_all add: c_def pow2_def)
  have N1: "1 \<le> N" using assms(2) by (simp add: N_def)
  have N0: "0 < N" using N1 by simp
  have "(of_int n :: rat) \<le> of_int (2 ^ 53)" using assms(3) by (simp only: of_int_le_iff)
  then have N: "pow2 0 \<le> \<bar>N\<bar>" "\<bar>N\<bar> \<le> pow2 53" using N1 by (simp_all add: N_def pow2_def)
  \<comment> \<open>the balance\<close>
  obtain t where t: "round64 x = Num t" "\<bar>t - x\<bar> \<le> \<bar>x\<bar> / 2 ^ 53"
    using round64_error [OF x(2,3)] by auto
  have tb: "pow2 (- 60) \<le> \<bar>t\<bar>" "\<bar>t\<bar> \<le> pow2 197" "0 < t"
    using round64_between [OF x(2,3)] t(1) x(1) by auto
  \<comment> \<open>the constant\<close>
  obtain p where p: "round64 c = Num p" "\<bar>p - c\<bar> \<le> \<bar>c\<bar> / 2 ^ 53"
    using round64_error [OF c] by auto
  have pb: "pow2 (- 34) \<le> \<bar>p\<bar>" "\<bar>p\<bar> \<le> pow2 (- 33)" "0 < p"
    using round64_between [OF c] p(1) c0 by auto
  \<comment> \<open>the first product\<close>
  have tp0: "0 < t * p" using tb(3) pb(3) by simp
  have "pow2 (- 60) * pow2 (- 34) \<le> \<bar>t\<bar> * \<bar>p\<bar>"
    using tb(1) pb(1) pow2_pos [of "- 60"] pow2_pos [of "- 34"] by (intro mult_mono) simp_all
  then have tp1: "pow2 (- 60 + - 34) \<le> \<bar>t * p\<bar>" by (simp only: pow2_add abs_mult)
  have "\<bar>t\<bar> * \<bar>p\<bar> \<le> pow2 197 * pow2 (- 33)"
    using tb(2) pb(2) pow2_pos [of 197] by (intro mult_mono) simp_all
  then have tp2: "\<bar>t * p\<bar> \<le> pow2 (197 + - 33)" by (simp only: pow2_add abs_mult)
  obtain w where w: "round64 (t * p) = Num w" "\<bar>w - t * p\<bar> \<le> \<bar>t * p\<bar> / 2 ^ 53"
    using round64_error [OF tp1 tp2] by auto
  have wb: "pow2 (- 60 + - 34) \<le> \<bar>w\<bar>" "\<bar>w\<bar> \<le> pow2 (197 + - 33)" "0 < w"
    using round64_between [OF tp1 tp2] w(1) tp0 by auto
  \<comment> \<open>the second product\<close>
  have wN0: "0 < w * N" using wb(3) N0 by simp
  have "pow2 (- 60 + - 34) * pow2 0 \<le> \<bar>w\<bar> * \<bar>N\<bar>"
    using wb(1) N(1) pow2_pos [of "- 60 + - 34"] pow2_pos [of 0] by (intro mult_mono) simp_all
  then have wN1: "pow2 (- 60 + - 34 + 0) \<le> \<bar>w * N\<bar>" by (simp only: pow2_add abs_mult)
  have "\<bar>w\<bar> * \<bar>N\<bar> \<le> pow2 (197 + - 33) * pow2 53"
    using wb(2) N(2) pow2_pos [of "197 + - 33"] by (intro mult_mono) simp_all
  then have wN2: "\<bar>w * N\<bar> \<le> pow2 (197 + - 33 + 53)" by (simp only: pow2_add abs_mult)
  obtain r where r: "round64 (w * N) = Num r" "\<bar>r - w * N\<bar> \<le> \<bar>w * N\<bar> / 2 ^ 53"
    using round64_error [OF wN1 wN2] by auto
  \<comment> \<open>the four errors together\<close>
  have u: "0 < 1 - u" "0 < 1 + u" by (simp_all add: u_def)
  have t_iv: "x * (1 - u) \<le> t" "t \<le> x * (1 + u)"
    using error_interval [OF t(2) x(1)] by (simp_all add: u_def)
  have p_iv: "c * (1 - u) \<le> p" "p \<le> c * (1 + u)"
    using error_interval [OF p(2) c0] by (simp_all add: u_def)
  have w_iv: "t * p * (1 - u) \<le> w" "w \<le> t * p * (1 + u)"
    using error_interval [OF w(2) tp0] by (simp_all add: u_def)
  have r_iv: "w * N * (1 - u) \<le> r" "r \<le> w * N * (1 + u)"
    using error_interval [OF r(2) wN0] by (simp_all add: u_def)
  define X where "X = x * c * N"
  have X0: "0 < X" using x(1) c0 N0 by (simp add: X_def)
  have "t * p \<le> (x * (1 + u)) * (c * (1 + u))"
    using t_iv(2) p_iv(2) tb(3) pb(3) by (intro mult_mono) simp_all
  then have "t * p * (1 + u) \<le> (x * (1 + u)) * (c * (1 + u)) * (1 + u)"
    using u(2) by (simp add: mult_right_mono)
  with w_iv(2) have "w \<le> (x * (1 + u)) * (c * (1 + u)) * (1 + u)" by simp
  then have "w * N * (1 + u) \<le> (x * (1 + u)) * (c * (1 + u)) * (1 + u) * N * (1 + u)"
    using u(2) N0 by (simp add: mult_right_mono)
  with r_iv(2) have "r \<le> (x * (1 + u)) * (c * (1 + u)) * (1 + u) * N * (1 + u)" by simp
  also have "\<dots> = X * ((1 + u) * (1 + u) * (1 + u) * (1 + u))" by (simp add: X_def algebra_simps)
  also have "\<dots> \<le> X * (1 + 1 / 2 ^ 50)"
    using fourth_power_bounds(1) X0 unfolding u_def by (intro mult_left_mono) simp_all
  finally have hi: "r - X \<le> X / 2 ^ 50" by (simp add: algebra_simps)
  have xu: "0 \<le> x * (1 - u)" "0 \<le> c * (1 - u)" using x(1) c0 u(1) by simp_all
  have "(x * (1 - u)) * (c * (1 - u)) \<le> t * p"
    using t_iv(1) p_iv(1) xu tb(3) by (intro mult_mono) simp_all
  then have "(x * (1 - u)) * (c * (1 - u)) * (1 - u) \<le> t * p * (1 - u)"
    using u(1) by (simp add: mult_right_mono)
  with w_iv(1) have "(x * (1 - u)) * (c * (1 - u)) * (1 - u) \<le> w" by simp
  then have "(x * (1 - u)) * (c * (1 - u)) * (1 - u) * N * (1 - u) \<le> w * N * (1 - u)"
    using u(1) N0 by (simp add: mult_right_mono)
  with r_iv(1) have "(x * (1 - u)) * (c * (1 - u)) * (1 - u) * N * (1 - u) \<le> r" by simp
  moreover have "(x * (1 - u)) * (c * (1 - u)) * (1 - u) * N * (1 - u) =
      X * ((1 - u) * (1 - u) * (1 - u) * (1 - u))" by (simp add: X_def algebra_simps)
  moreover have "X * (1 - 1 / 2 ^ 50) \<le> X * ((1 - u) * (1 - u) * (1 - u) * (1 - u))"
    using fourth_power_bounds(2) X0 unfolding u_def by (intro mult_left_mono) simp_all
  ultimately have "X * (1 - 1 / 2 ^ 50) \<le> r" by simp
  then have lo: "- (X / 2 ^ 50) \<le> r - X" by (simp add: algebra_simps)
  have err: "\<bar>r - X\<bar> \<le> X / 2 ^ 50" using hi lo by linarith
  have e1: "Number_of_decimal (formatEther bal) = Num t"
    unfolding Number_of_decimal_def using t(1) by (simp only: x_def)
  have e2: "POINTS_PER_TOKEN = Num p"
    unfolding POINTS_PER_TOKEN_def using p(1) by (simp only: c_def)
  have "fmul (fmul (Number_of_decimal (formatEther bal)) POINTS_PER_TOKEN) (Num (of_int n)) = Num r"
    by (simp only: e1 e2 fmul.simps w(1) r(1) N_def [symmetric])
  with err show ?thesis unfolding X_def x_def c_def N_def by blast
qed

section \<open>The run of \<^verbatim>\<open>calculatePoints\<close>, field by field\<close>

lemma lower_nonempty: "toLowerCase a = [] \<longleftrightarrow> a = []"
  by (simp add: toLowerCase_def)

lemma pool_lower: "toLowerCase UNISWAP_POOL = ''0xbe01179f2291773d220eae55ee85b417f40342d0''"
  by (simp add: toLowerCase_def UNISWAP_POOL_def lower_char_def char_of_eq_iff)

lemma fetchLeaderboard_fields:
  "address (fetchLeaderboard e s) = address s"
  "pointsData (fetchLeaderboard e s) = pointsData s"
  "loading (fetchLeaderboard e s) = loading s"
  "error (fetchLeaderboard e s) = error s"
  "showPointsAnimation (fetchLeaderboard e s) = showPointsAnimation s"
  "showLevelUp (fetchLeaderboard e s) = showLevelUp s"
  "table (fetchLeaderboard e s) = table s"
  "calls (fetchLeaderboard e s) = calls s @ [Select UNISWAP_POOL 10]"
  "leaderboard (fetchLeaderboard e s) =
     (case selectError e of None \<Rightarrow> select_query UNISWAP_POOL 10 (table s) | Some err \<Rightarrow> leaderboard s)"
  "console (fetchLeaderboard e s) =
     (case selectError e of None \<Rightarrow> console s
      | Some err \<Rightarrow> console s @ [ConsoleError ''Error fetching leaderboard:'' err])"
  by (simp_all add: fetchLeaderboard_def Let_def split: option.split)

lemma calculatePoints_computed:
  assumes "default_argument arg s = a" "a \<noteq> []" "toLowerCase a \<noteq> toLowerCase UNISWAP_POOL"
    and "getBlockNumber e = Inr cb" "balanceOf e CYGAAR_ADDRESS a = Inr bal"
  defines "tb \<equiv> Number_of_decimal (formatEther bal)"
    and "bh \<equiv> Number_of_bigint (int cb - START_BLOCK)"
  defines "pts \<equiv> fmul (fmul tb POINTS_PER_TOKEN) bh"
  defines "row \<equiv> \<lparr>row_address = toLowerCase a, row_points = pts, row_last_updated = now e\<rparr>"
  shows "pointsData (calculatePoints e arg s) =
           Some \<lparr>balance = toFixed2 (numberToString e) tb, points = pts, blocksHeld = bh,
                 level = calculateLevel pts\<rparr>"
    and "error (calculatePoints e arg s) = []"
    and "loading (calculatePoints e arg s) = False"
    and "address (calculatePoints e arg s) = address s"
    and "showPointsAnimation (calculatePoints e arg s) = True"
    and "showLevelUp (calculatePoints e arg s) = True"
    and "calls (calculatePoints e arg s) =
           calls s @ [GetBlockNumber, ReadContract CYGAAR_ADDRESS ''balanceOf'' a, Upsert row] @
           (case upsertError e of None \<Rightarrow> [Select UNISWAP_POOL 10] | Some err \<Rightarrow> [])"
    and "table (calculatePoints e arg s) =
           (case upsertError e of None \<Rightarrow> put_row (stored row) (table s) | Some err \<Rightarrow> table s)"
    and "console (calculatePoints e arg s) =
           (case upsertError e of
              Some err \<Rightarrow> console s @ [ConsoleError ''Error updating leaderboard:'' err]
            | None \<Rightarrow>
                (case selectError e of None \<Rightarrow> console s
                 | Some err \<Rightarrow> console s @ [ConsoleError ''Error fetching leaderboard:'' err]))"
    and "leaderboard (calculatePoints e arg s) =
           (case upsertError e of
              Some err \<Rightarrow> leaderboard s
            | None \<Rightarrow>
                (case selectError e of
                   None \<Rightarrow> select_query UNISWAP_POOL 10 (put_row (stored row) (table s))
                 | Some err \<Rightarrow> leaderboard s))"
  using assms(1-5) unfolding tb_def bh_def pts_def row_def
  by (simp_all add: calculatePoints_def Let_def finally_block_def fetchLeaderboard_fields
      split: option.split)

lemma holder_lower:
  "toLowerCase holder = holder_lowercase" "toLowerCase holder_lowercase = holder_lowercase"
  by (simp_all add: holder_def holder_lowercase_def toLowerCase_def lower_char_def char_of_eq_iff)

lemma pool_lowercase_eq: "toLowerCase pool_lowercase = toLowerCase UNISWAP_POOL"
  by (simp add: pool_lower) (simp add: pool_lowercase_def toLowerCase_def lower_char_def)

lemma holder_eligible:
  "default_argument (Some holder) s = holder" "holder \<noteq> []"
  "toLowerCase holder \<noteq> toLowerCase UNISWAP_POOL"
  by (simp_all add: default_argument_def holder_lower pool_lower)
    (simp_all add: holder_def holder_lowercase_def)

lemma holder_lowercase_eligible:
  "default_argument (Some holder_lowercase) s = holder_lowercase" "holder_lowercase \<noteq> []"
  "toLowerCase holder_lowercase \<noteq> toLowerCase UNISWAP_POOL"
  by (simp_all add: default_argument_def holder_lower pool_lower)
    (simp_all add: holder_lowercase_def)

lemma chain_env_simps:
  "getBlockNumber (chain_env cb bal ue) = Inr cb"
  "balanceOf (chain_env cb bal ue) t a = Inr bal"
  "upsertError (chain_env cb bal ue) = ue"
  "selectError (chain_env cb bal ue) = None"
  "now (chain_env cb bal ue) = ''2025-01-01T00:00:00.000Z''"
  by (simp_all add: chain_env_def)

lemma block_10000: "Number_of_bigint (267810 - START_BLOCK) = Num 10000"
  using Number_of_bigint_exact [of 10000] by (simp add: START_BLOCK_def)

section \<open>The score\<close>

text \<open>
  C1. When both reads of the chain succeed, the points of the snapshot are
  \<^verbatim>\<open>tokenBalance * POINTS_PER_TOKEN * blocksHeld\<close>, the products taken from the left in
  binary64 arithmetic, where \<^verbatim>\<open>POINTS_PER_TOKEN\<close> is the binary64 value of \<open>1e-10\<close>; a
  balance of 1000000 tokens held for 10000 blocks gives exactly 1. For a positive balance
  and a positive number of blocks up to \<open>2 ^ 53\<close>, the points are a finite number within
  one part in \<open>2 ^ 50\<close> of the exact product of the balance in tokens, \<open>10\<close> to the power
  \<open>- 10\<close> and the number of blocks.
\<close>

theorem points_formula:
  assumes "default_argument arg s = a" "a \<noteq> []" "toLowerCase a \<noteq> toLowerCase UNISWAP_POOL"
    and "getBlockNumber e = Inr cb" "balanceOf e CYGAAR_ADDRESS a = Inr bal"
  shows "(\<exists>pd. pointsData (calculatePoints e arg s) = Some pd \<and>
            points pd =
              fmul (fmul (Number_of_decimal (formatEther bal)) POINTS_PER_TOKEN) (blocksHeld pd) \<and>
            (bal \<noteq> 0 \<and> START_BLOCK < int cb \<and> int cb - START_BLOCK \<le> 2 ^ 53 \<longrightarrow>
               (\<exists>r. points pd = Num r \<and>
                  \<bar>r - formatEther bal * (1 / 10 ^ 10) * of_int (int cb - START_BLOCK)\<bar> \<le>
                    formatEther bal * (1 / 10 ^ 10) * of_int (int cb - START_BLOCK) / 2 ^ 50))) \<and>
         POINTS_PER_TOKEN = round64 (1 / 10 ^ 10) \<and>
         fmul (fmul (Num 1000000) POINTS_PER_TOKEN) (Num 10000) = Num 1"
proof -
  define n where "n = int cb - START_BLOCK"
  define pts where "pts = fmul (fmul (Number_of_decimal (formatEther bal)) POINTS_PER_TOKEN)
                     (Number_of_bigint n)"
  define pd where "pd = \<lparr>balance = toFixed2 (numberToString e) (Number_of_decimal (formatEther bal)),
      points = pts, blocksHeld = Number_of_bigint n, level = calculateLevel pts\<rparr>"
  have 1: "pointsData (calculatePoints e arg s) = Some pd"
    using calculatePoints_computed(1) [OF assms] by (simp add: pd_def pts_def n_def)
  have 2: "points pd =
      fmul (fmul (Number_of_decimal (formatEther bal)) POINTS_PER_TOKEN) (blocksHeld pd)"
    by (simp add: pd_def pts_def)
  have 3: "\<exists>r. points pd = Num r \<and>
      \<bar>r - formatEther bal * (1 / 10 ^ 10) * of_int n\<bar> \<le>
        formatEther bal * (1 / 10 ^ 10) * of_int n / 2 ^ 50"
    if "bal \<noteq> 0" "0 < n" "n \<le> 2 ^ 53"
  proof -
    have "\<bar>n\<bar> \<le> 2 ^ 53" using that(2,3) by simp
    then have "Number_of_bigint n = Num (of_int n)" by (rule Number_of_bigint_exact)
    then have "points pd =
        fmul (fmul (Number_of_decimal (formatEther bal)) POINTS_PER_TOKEN) (Num (of_int n))"
      by (simp add: pd_def pts_def)
    with points_accuracy [OF that] show ?thesis by simp
  qed
  have 4: "POINTS_PER_TOKEN = round64 (1 / 10 ^ 10)" by (rule POINTS_PER_TOKEN_def)
  show ?thesis
    using 1 2 3 4 ex1 unfolding n_def by (intro conjI exI [of _ pd]) auto
qed

theorem points_formula_witness:
  "default_argument (Some holder) (initial_state []) = holder \<and> holder \<noteq> [] \<and>
   toLowerCase holder \<noteq> toLowerCase UNISWAP_POOL \<and>
   getBlockNumber (chain_env 267810 (10 ^ 24) None) = Inr 267810 \<and>
   balanceOf (chain_env 267810 (10 ^ 24) None) CYGAAR_ADDRESS holder = Inr (10 ^ 24) \<and>
   map_option points
     (pointsData (calculatePoints (chain_env 267810 (10 ^ 24) None) (Some holder) (initial_state [])))
     = Some (Num 1)"
proof -
  let ?e = "chain_env 267810 (10 ^ 24) None"
  have h: "getBlockNumber ?e = Inr 267810" "balanceOf ?e CYGAAR_ADDRESS holder = Inr (10 ^ 24)"
    by (simp_all add: chain_env_simps)
  from points_formula [OF holder_eligible h, of "initial_state []"]
  obtain pd where pd: "pointsData (calculatePoints ?e (Some holder) (initial_state [])) = Some pd"
    "points pd = fmul (fmul (Number_of_decimal (formatEther (10 ^ 24))) POINTS_PER_TOKEN) (blocksHeld pd)"
    by blast
  have "blocksHeld pd = Num 10000"
    using calculatePoints_computed(1) [OF holder_eligible h, of "initial_state []"] pd(1)
    by (auto simp: block_10000)
  with pd have "map_option points (pointsData (calculatePoints ?e (Some holder) (initial_state []))) = Some (Num 1)"
    using tokens_1e6 by (simp add: ex1)
  with holder_eligible h show ?thesis by simp
qed

text \<open>
  C2. When both reads of the chain succeed, the level of the snapshot is
  \<^verbatim>\<open>Math.floor(points / POINTS_PER_LEVEL) + 1\<close> of the snapshot's points, in binary64
  arithmetic, where \<^verbatim>\<open>POINTS_PER_LEVEL\<close> is 650; 0 points give level 1, 650 points
  level 2, and 649.999 points level 1. For points from 0 to \<open>2 ^ 54\<close> the level is the
  floor of the exact quotient plus one.
\<close>

theorem level_formula:
  assumes "default_argument arg s = a" "a \<noteq> []" "toLowerCase a \<noteq> toLowerCase UNISWAP_POOL"
    and "getBlockNumber e = Inr cb" "balanceOf e CYGAAR_ADDRESS a = Inr bal"
  shows "(\<exists>pd. pointsData (calculatePoints e arg s) = Some pd \<and>
            level pd = fadd (Math_floor (fdiv (points pd) POINTS_PER_LEVEL)) (Num 1) \<and>
            (\<forall>r. points pd = Num r \<and> 0 \<le> r \<and> r < 2 ^ 54 \<longrightarrow>
                 level pd = Num (of_int (\<lfloor>r / 650\<rfloor> + 1)))) \<and>
         POINTS_PER_LEVEL = Num 650 \<and>
         calculateLevel (Num 0) = Num 1 \<and>
         calculateLevel (Num 650) = Num 2 \<and>
         calculateLevel (round64 (649999 / 1000)) = Num 1"
proof -
  define pts where "pts = fmul (fmul (Number_of_decimal (formatEther bal)) POINTS_PER_TOKEN)
                     (Number_of_bigint (int cb - START_BLOCK))"
  define pd where "pd = \<lparr>balance = toFixed2 (numberToString e) (Number_of_decimal (formatEther bal)),
      points = pts, blocksHeld = Number_of_bigint (int cb - START_BLOCK),
      level = calculateLevel pts\<rparr>"
  have 1: "pointsData (calculatePoints e arg s) = Some pd"
    using calculatePoints_computed(1) [OF assms] by (simp add: pd_def pts_def)
  have 2: "level pd = fadd (Math_floor (fdiv (points pd) POINTS_PER_LEVEL)) (Num 1)"
    by (simp add: pd_def calculateLevel_def)
  have 3: "level pd = Num (of_int (\<lfloor>r / 650\<rfloor> + 1))" if "points pd = Num r" "0 \<le> r" "r < 2 ^ 54" for r
  proof -
    have p: "pts = Num r" using that(1) by (simp add: pd_def)
    then have "round64 r = Num r" unfolding pts_def by (rule fmul_binary64)
    then show ?thesis using calculateLevel_exact [OF _ that(2,3)] p by (simp add: pd_def)
  qed
  have "POINTS_PER_LEVEL = Num 650" by (rule POINTS_PER_LEVEL_def)
  with 1 2 3 level0 level650 level649 show ?thesis by blast
qed

theorem level_formula_witness:
  "default_argument (Some holder) (initial_state []) = holder \<and> holder \<noteq> [] \<and>
   toLowerCase holder \<noteq> toLowerCase UNISWAP_POOL \<and>
   getBlockNumber (chain_env 267810 (10 ^ 24) None) = Inr 267810 \<and>
   balanceOf (chain_env 267810 (10 ^ 24) None) CYGAAR_ADDRESS holder = Inr (10 ^ 24) \<and>
   map_option level
     (pointsData (calculatePoints (chain_env 267810 (10 ^ 24) None) (Some holder) (initial_state [])))
     = Some (Num 1)"
proof -
  let ?e = "chain_env 267810 (10 ^ 24) None"
  let ?s' = "calculatePoints ?e (Some holder) (initial_state [])"
  have h: "getBlockNumber ?e = Inr 267810" "balanceOf ?e CYGAAR_ADDRESS holder = Inr (10 ^ 24)"
    by (simp_all add: chain_env_simps)
  from level_formula [OF holder_eligible h, of "initial_state []"]
  obtain pd where pd: "pointsData ?s' = Some pd"
    "level pd = fadd (Math_floor (fdiv (points pd) POINTS_PER_LEVEL)) (Num 1)"
    by blast
  have "points pd = Num 1"
    using calculatePoints_computed(1) [OF holder_eligible h, of "initial_state []"] pd(1) tokens_1e6
    by (auto simp: block_10000 ex1)
  moreover have "fdiv (Num 1) POINTS_PER_LEVEL = Num (3547450783405683 / 2305843009213693952)"
    using round64_near [of "- 10" "1 / 650" 7094901566811366]
    by (simp add: POINTS_PER_LEVEL_def pow2_def)
  moreover have "\<lfloor>3547450783405683 / 2305843009213693952 :: rat\<rfloor> = 0"
    by (rule floor_unique) simp_all
  ultimately have "level pd = Num 1" using pd(2) by (simp add: round64_small)
  with pd(1) holder_eligible h show ?thesis by simp
qed

section \<open>Validation\<close>

text \<open>
  C3. An address that is empty, or equal to the pool's address up to the case of its
  letters, sets the error message and changes nothing else: no request goes to the chain
  or to the store, the table and the console stay as they are.
\<close>

theorem validation_short_circuit:
  assumes "default_argument arg s = [] \<or>
           toLowerCase (default_argument arg s) = toLowerCase UNISWAP_POOL"
  shows "calculatePoints e arg s =
           s\<lparr>error := (if default_argument arg s = [] then ''Please enter an address''
                       else ''This address is not eligible for points tracking'')\<rparr> \<and>
         error (calculatePoints e arg s) \<noteq> [] \<and>
         calls (calculatePoints e arg s) = calls s \<and>
         table (calculatePoints e arg s) = table s \<and>
         console (calculatePoints e arg s) = console s"
  using assms by (auto simp: calculatePoints_def Let_def)

theorem validation_short_circuit_witness:
  "(default_argument (Some pool_lowercase) (initial_state []) = [] \<or>
    toLowerCase (default_argument (Some pool_lowercase) (initial_state [])) =
      toLowerCase UNISWAP_POOL) \<and>
   error (calculatePoints (chain_env 267810 (10 ^ 24) None) (Some pool_lowercase) (initial_state []))
     = ''This address is not eligible for points tracking'' \<and>
   calls (calculatePoints (chain_env 267810 (10 ^ 24) None) (Some pool_lowercase) (initial_state []))
     = [] \<and>
   error (calculatePoints (chain_env 267810 (10 ^ 24) None) None (initial_state []))
     = ''Please enter an address'' \<and>
   calls (calculatePoints (chain_env 267810 (10 ^ 24) None) None (initial_state [])) = []"
proof -
  have a: "default_argument (Some pool_lowercase) (initial_state []) = pool_lowercase"
    by (simp add: default_argument_def)
  have b: "default_argument None (initial_state []) = []"
    by (simp add: default_argument_def initial_state_def)
  have c: "pool_lowercase \<noteq> []" by (simp add: pool_lowercase_def)
  show ?thesis
    using validation_short_circuit [of "Some pool_lowercase" "initial_state []" "chain_env 267810 (10 ^ 24) None"]
      validation_short_circuit [of None "initial_state []" "chain_env 267810 (10 ^ 24) None"]
    by (simp add: a b c pool_lowercase_eq) (simp add: initial_state_def)
qed

section \<open>A failing upsert\<close>

text \<open>
  C4. When both reads of the chain succeed and the upsert answers with an error, the
  snapshot is set, the error message is empty, and the error of the store is a line of
  the console and nothing more: the leaderboard shown and the table are unchanged.
\<close>

theorem upsert_failure_keeps_snapshot:
  assumes "default_argument arg s = a" "a \<noteq> []" "toLowerCase a \<noteq> toLowerCase UNISWAP_POOL"
    and "getBlockNumber e = Inr cb" "balanceOf e CYGAAR_ADDRESS a = Inr bal"
    and "upsertError e = Some err"
  shows "pointsData (calculatePoints e arg s) =
           Some \<lparr>balance = toFixed2 (numberToString e) (Number_of_decimal (formatEther bal)),
                 points = fmul (fmul (Number_of_decimal (formatEther bal)) POINTS_PER_TOKEN)
                            (Number_of_bigint (int cb - START_BLOCK)),
                 blocksHeld = Number_of_bigint (int cb - START_BLOCK),
                 level = calculateLevel
                           (fmul (fmul (Number_of_decimal (formatEther bal)) POINTS_PER_TOKEN)
                              (Number_of_bigint (int cb - START_BLOCK)))\<rparr> \<and>
         error (calculatePoints e arg s) = [] \<and>
         console (calculatePoints e arg s) =
           console s @ [ConsoleError ''Error updating leaderboard:'' err] \<and>
         loading (calculatePoints e arg s) = False \<and>
         leaderboard (calculatePoints e arg s) = leaderboard s \<and>
         table (calculatePoints e arg s) = table s"
  using calculatePoints_computed [OF assms(1-5)] assms(6) by simp

theorem upsert_failure_keeps_snapshot_witness:
  "default_argument (Some holder) (initial_state []) = holder \<and> holder \<noteq> [] \<and>
   toLowerCase holder \<noteq> toLowerCase UNISWAP_POOL \<and>
   getBlockNumber (chain_env 267810 (10 ^ 24) (Some ''503'')) = Inr 267810 \<and>
   balanceOf (chain_env 267810 (10 ^ 24) (Some ''503'')) CYGAAR_ADDRESS holder = Inr (10 ^ 24) \<and>
   upsertError (chain_env 267810 (10 ^ 24) (Some ''503'')) = Some ''503'' \<and>
   map_option points
     (pointsData (calculatePoints (chain_env 267810 (10 ^ 24) (Some ''503'')) (Some holder)
        (initial_state []))) = Some (Num 1) \<and>
   error (calculatePoints (chain_env 267810 (10 ^ 24) (Some ''503'')) (Some holder)
        (initial_state [])) = [] \<and>
   console (calculatePoints (chain_env 267810 (10 ^ 24) (Some ''503'')) (Some holder)
        (initial_state [])) = [ConsoleError ''Error updating leaderboard:'' ''503'']"
proof -
  let ?e = "chain_env 267810 (10 ^ 24) (Some ''503'')"
  have h: "getBlockNumber ?e = Inr 267810" "balanceOf ?e CYGAAR_ADDRESS holder = Inr (10 ^ 24)"
    "upsertError ?e = Some ''503''"
    by (simp_all add: chain_env_simps)
  have c: "console (initial_state []) = []" by (simp add: initial_state_def)
  show ?thesis
    using upsert_failure_keeps_snapshot [OF holder_eligible h, of "initial_state []"] tokens_1e6
    by (simp add: holder_eligible chain_env_simps c block_10000 ex1)
qed

section \<open>What is written to the store\<close>

lemma upserts_append: "upserts (xs @ ys) = upserts xs @ upserts ys"
  by (induction xs rule: upserts.induct) simp_all

lemma put_row_twice:
  "entry_address r1 = entry_address r2 \<Longrightarrow> put_row r2 (put_row r1 t) = put_row r2 t"
  by (induction t) auto

lemma put_row_addresses:
  "map entry_address (put_row r t) =
     (if entry_address r \<in> entry_address ` set t then map entry_address t
      else map entry_address t @ [entry_address r])"
  by (induction t) auto

lemma find_put_row: "find (\<lambda>x. entry_address x = entry_address r) (put_row r t) = Some r"
  by (induction t) auto

lemma calculatePoints_address: "address (calculatePoints e arg s) = address s"
  by (simp add: calculatePoints_def Let_def finally_block_def catch_block_def
      fetchLeaderboard_fields split: sum.split option.split)

lemma default_argument_after:
  "default_argument arg (calculatePoints e arg' s) = default_argument arg s"
  by (simp add: default_argument_def calculatePoints_address split: option.split)

text \<open>
  C6. The row sent to the upsert has the lower-case form of the input as its address, and
  that is the key of the row in the table afterwards. A second input with the same
  lower-case form writes to the same row: the table ends as if the second input alone had
  been written, and no row is added.
\<close>

theorem upsert_key_lowercase:
  assumes "default_argument arg1 s = a" "a \<noteq> []" "toLowerCase a \<noteq> toLowerCase UNISWAP_POOL"
    and "getBlockNumber e1 = Inr cb1" "balanceOf e1 CYGAAR_ADDRESS a = Inr bal1"
    and "upsertError e1 = None"
    and "default_argument arg2 s = b" "toLowerCase b = toLowerCase a"
    and "getBlockNumber e2 = Inr cb2" "balanceOf e2 CYGAAR_ADDRESS b = Inr bal2"
    and "upsertError e2 = None"
  shows "map row_address (upserts (calls (calculatePoints e1 arg1 s))) =
           map row_address (upserts (calls s)) @ [toLowerCase a] \<and>
         map_option entry_address
           (find (\<lambda>x. entry_address x = toLowerCase a) (table (calculatePoints e1 arg1 s))) =
           Some (toLowerCase a) \<and>
         table (calculatePoints e2 arg2 (calculatePoints e1 arg1 s)) =
           table (calculatePoints e2 arg2 s) \<and>
         map entry_address (table (calculatePoints e2 arg2 (calculatePoints e1 arg1 s))) =
           map entry_address (table (calculatePoints e1 arg1 s))"
proof -
  let ?s1 = "calculatePoints e1 arg1 s"
  define r1 where "r1 = stored \<lparr>row_address = toLowerCase a,
      row_points = fmul (fmul (Number_of_decimal (formatEther bal1)) POINTS_PER_TOKEN)
                     (Number_of_bigint (int cb1 - START_BLOCK)),
      row_last_updated = now e1\<rparr>"
  define r2 where "r2 = stored \<lparr>row_address = toLowerCase b,
      row_points = fmul (fmul (Number_of_decimal (formatEther bal2)) POINTS_PER_TOKEN)
                     (Number_of_bigint (int cb2 - START_BLOCK)),
      row_last_updated = now e2\<rparr>"
  have k1: "entry_address r1 = toLowerCase a" and k2: "entry_address r2 = toLowerCase a"
    using assms(8) by (simp_all add: r1_def r2_def stored_def)
  have b: "b \<noteq> []" "toLowerCase b \<noteq> toLowerCase UNISWAP_POOL"
    using assms(2,3,8) lower_nonempty [of a] lower_nonempty [of b] by auto
  have b1: "default_argument arg2 ?s1 = b" using assms(7) by (simp add: default_argument_after)
  have t1: "table ?s1 = put_row r1 (table s)"
    using calculatePoints_computed(8) [OF assms(1-5)] assms(6) by (simp add: r1_def)
  have t2: "table (calculatePoints e2 arg2 s) = put_row r2 (table s)"
    using calculatePoints_computed(8) [OF assms(7) b assms(9,10)] assms(11) by (simp add: r2_def)
  have t12: "table (calculatePoints e2 arg2 ?s1) = put_row r2 (table ?s1)"
    using calculatePoints_computed(8) [OF b1 b assms(9,10)] assms(11) by (simp add: r2_def)
  have c1: "calls ?s1 = calls s @ [GetBlockNumber, ReadContract CYGAAR_ADDRESS ''balanceOf'' a,
      Upsert \<lparr>row_address = toLowerCase a,
        row_points = fmul (fmul (Number_of_decimal (formatEther bal1)) POINTS_PER_TOKEN)
                     (Number_of_bigint (int cb1 - START_BLOCK)),
        row_last_updated = now e1\<rparr>, Select UNISWAP_POOL 10]"
    using calculatePoints_computed(7) [OF assms(1-5)] assms(6) by simp
  have "map row_address (upserts (calls ?s1)) = map row_address (upserts (calls s)) @ [toLowerCase a]"
    by (simp add: c1 upserts_append)
  moreover have "map_option entry_address
      (find (\<lambda>x. entry_address x = toLowerCase a) (table ?s1)) = Some (toLowerCase a)"
    using find_put_row [of r1 "table s"] by (simp add: t1 k1)
  moreover have "table (calculatePoints e2 arg2 ?s1) = table (calculatePoints e2 arg2 s)"
    using put_row_twice [of r1 r2 "table s"] by (simp add: t12 t1 t2 k1 k2)
  moreover have "map entry_address (table (calculatePoints e2 arg2 ?s1)) = map entry_address (table ?s1)"
  proof -
    have "entry_address r2 \<in> entry_address ` set (put_row r1 (table s))"
      using put_row_addresses [of r1 "table s"] k1 k2
      by (metis (no_types, lifting) find_put_row find_Some_iff image_eqI nth_mem)
    then show ?thesis by (simp add: t12 t1 put_row_addresses [of r2])
  qed
  ultimately show ?thesis by blast
qed

theorem upsert_key_lowercase_witness:
  "default_argument (Some holder) (initial_state []) = holder \<and> holder \<noteq> [] \<and>
   toLowerCase holder \<noteq> toLowerCase UNISWAP_POOL \<and>
   getBlockNumber (chain_env 267810 (10 ^ 24) None) = Inr 267810 \<and>
   balanceOf (chain_env 267810 (10 ^ 24) None) CYGAAR_ADDRESS holder = Inr (10 ^ 24) \<and>
   upsertError (chain_env 267810 (10 ^ 24) None) = None \<and>
   default_argument (Some holder_lowercase) (initial_state []) = holder_lowercase \<and>
   toLowerCase holder_lowercase = toLowerCase holder \<and> holder_lowercase \<noteq> holder \<and>
   getBlockNumber (chain_env 267811 (10 ^ 18) None) = Inr 267811 \<and>
   balanceOf (chain_env 267811 (10 ^ 18) None) CYGAAR_ADDRESS holder_lowercase = Inr (10 ^ 18) \<and>
   upsertError (chain_env 267811 (10 ^ 18) None) = None \<and>
   map row_address
     (upserts (calls (calculatePoints (chain_env 267810 (10 ^ 24) None) (Some holder)
        (initial_state [])))) = [holder_lowercase] \<and>
   map entry_address
     (table (calculatePoints (chain_env 267811 (10 ^ 18) None) (Some holder_lowercase)
        (calculatePoints (chain_env 267810 (10 ^ 24) None) (Some holder) (initial_state []))))
     = [holder_lowercase]"
proof -
  let ?e1 = "chain_env 267810 (10 ^ 24) None"
  let ?e2 = "chain_env 267811 (10 ^ 18) None"
  have h1: "getBlockNumber ?e1 = Inr 267810" "balanceOf ?e1 CYGAAR_ADDRESS holder = Inr (10 ^ 24)"
    "upsertError ?e1 = None"
    by (simp_all add: chain_env_simps)
  have h2: "default_argument (Some holder_lowercase) (initial_state []) = holder_lowercase"
    "toLowerCase holder_lowercase = toLowerCase holder"
    "getBlockNumber ?e2 = Inr 267811" "balanceOf ?e2 CYGAAR_ADDRESS holder_lowercase = Inr (10 ^ 18)"
    "upsertError ?e2 = None"
    by (simp_all add: chain_env_simps holder_lower default_argument_def)
  have ne: "holder_lowercase \<noteq> holder" by (simp add: holder_def holder_lowercase_def)
  have t: "map entry_address (table (calculatePoints ?e1 (Some holder) (initial_state []))) =
      [holder_lowercase]"
    using calculatePoints_computed(8) [OF holder_eligible(1) [of "initial_state []"] holder_eligible(2,3) h1(1,2)] h1(3)
    by (simp add: initial_state_def stored_def holder_lower)
  have u: "upserts (calls (initial_state [])) = []" by (simp add: initial_state_def)
  have he: "default_argument (Some holder) (initial_state []) = holder"
    by (rule holder_eligible(1))
  note th = upsert_key_lowercase [OF he holder_eligible(2,3) h1 h2]
  have a1: "map row_address (upserts (calls (calculatePoints ?e1 (Some holder) (initial_state [])))) =
      map row_address (upserts (calls (initial_state []))) @ [toLowerCase holder]"
    using th by blast
  have a4: "map entry_address (table (calculatePoints ?e2 (Some holder_lowercase)
        (calculatePoints ?e1 (Some holder) (initial_state [])))) =
      map entry_address (table (calculatePoints ?e1 (Some holder) (initial_state [])))"
    using th by blast
  have "map row_address (upserts (calls (calculatePoints ?e1 (Some holder) (initial_state [])))) =
      [holder_lowercase]"
    "map entry_address (table (calculatePoints ?e2 (Some holder_lowercase)
        (calculatePoints ?e1 (Some holder) (initial_state [])))) = [holder_lowercase]"
    by (simp_all only: a1 a4 t u holder_lower list.map append_Nil)
  with he holder_eligible(2,3) h1 h2 ne show ?thesis by (intro conjI)
qed

text \<open>
  C10. When both reads of the chain succeed, one row is sent to the upsert, and its points
  are the points of the snapshot shown; when the upsert succeeds, the row of the table
  under the lower-case address holds that number as JSON carries it.
\<close>

theorem stored_points_equal_displayed:
  assumes "default_argument arg s = a" "a \<noteq> []" "toLowerCase a \<noteq> toLowerCase UNISWAP_POOL"
    and "getBlockNumber e = Inr cb" "balanceOf e CYGAAR_ADDRESS a = Inr bal"
  shows "\<exists>pd row. pointsData (calculatePoints e arg s) = Some pd \<and>
           upserts (calls (calculatePoints e arg s)) = upserts (calls s) @ [row] \<and>
           row_address row = toLowerCase a \<and>
           row_points row = points pd \<and>
           (upsertError e = None \<longrightarrow>
              map_option entry_points
                (find (\<lambda>x. entry_address x = toLowerCase a) (table (calculatePoints e arg s))) =
              Some (json_number (points pd)))"
proof -
  define pts where "pts = fmul (fmul (Number_of_decimal (formatEther bal)) POINTS_PER_TOKEN)
                     (Number_of_bigint (int cb - START_BLOCK))"
  define row where "row = \<lparr>row_address = toLowerCase a, row_points = pts, row_last_updated = now e\<rparr>"
  have k: "entry_address (stored row) = toLowerCase a" "entry_points (stored row) = json_number pts"
    by (simp_all add: row_def stored_def)
  have "upserts (calls (calculatePoints e arg s)) = upserts (calls s) @ [row]"
    using calculatePoints_computed(7) [OF assms]
    by (simp add: upserts_append row_def pts_def split: option.split)
  moreover have "map_option entry_points
      (find (\<lambda>x. entry_address x = toLowerCase a) (table (calculatePoints e arg s))) =
      Some (json_number pts)" if "upsertError e = None"
    using calculatePoints_computed(8) [OF assms] that find_put_row [of "stored row" "table s"]
    by (simp add: row_def [symmetric] pts_def [symmetric] k)
  moreover have "\<exists>pd. pointsData (calculatePoints e arg s) = Some pd \<and> points pd = pts"
    using calculatePoints_computed(1) [OF assms] by (simp add: pts_def)
  ultimately show ?thesis by (auto simp: row_def)
qed

theorem stored_points_equal_displayed_witness:
  "default_argument (Some holder) (initial_state []) = holder \<and> holder \<noteq> [] \<and>
   toLowerCase holder \<noteq> toLowerCase UNISWAP_POOL \<and>
   getBlockNumber (chain_env 267810 (10 ^ 24) None) = Inr 267810 \<and>
   balanceOf (chain_env 267810 (10 ^ 24) None) CYGAAR_ADDRESS holder = Inr (10 ^ 24) \<and>
   upsertError (chain_env 267810 (10 ^ 24) None) = None \<and>
   map_option points
     (pointsData (calculatePoints (chain_env 267810 (10 ^ 24) None) (Some holder) (initial_state [])))
     = Some (Num 1) \<and>
   map row_points
     (upserts (calls (calculatePoints (chain_env 267810 (10 ^ 24) None) (Some holder)
        (initial_state [])))) = [Num 1] \<and>
   map_option entry_points
     (find (\<lambda>x. entry_address x = holder_lowercase)
        (table (calculatePoints (chain_env 267810 (10 ^ 24) None) (Some holder) (initial_state []))))
     = Some (Some 1)"
proof -
  let ?e = "chain_env 267810 (10 ^ 24) None"
  let ?s' = "calculatePoints ?e (Some holder) (initial_state [])"
  have he: "default_argument (Some holder) (initial_state []) = holder"
    by (rule holder_eligible(1))
  have h: "getBlockNumber ?e = Inr 267810" "balanceOf ?e CYGAAR_ADDRESS holder = Inr (10 ^ 24)"
    by (simp_all add: chain_env_simps)
  have ue: "upsertError ?e = None" by (simp add: chain_env_simps)
  have u: "upserts (calls (initial_state [])) = []" by (simp add: initial_state_def)
  from stored_points_equal_displayed [OF he holder_eligible(2,3) h]
  obtain pd row where r: "pointsData ?s' = Some pd"
    "upserts (calls ?s') = upserts (calls (initial_state [])) @ [row]"
    "row_points row = points pd"
    "upsertError ?e = None \<longrightarrow>
       map_option entry_points (find (\<lambda>x. entry_address x = toLowerCase holder) (table ?s')) =
       Some (json_number (points pd))"
    by (elim exE conjE)
  have p: "points pd = Num 1"
    using calculatePoints_computed(1) [OF he holder_eligible(2,3) h] r(1) tokens_1e6
    by (auto simp: block_10000 ex1)
  have "map_option points (pointsData ?s') = Some (Num 1)" using r(1) p by simp
  moreover have "map row_points (upserts (calls ?s')) = [Num 1]" using r(2,3) p u by simp
  moreover have "map_option entry_points
      (find (\<lambda>x. entry_address x = holder_lowercase) (table ?s')) = Some (Some 1)"
    using r(4) ue p by (simp add: holder_lower)
  ultimately show ?thesis using he holder_eligible(2,3) h ue by (intro conjI)
qed

section \<open>A failing read of the chain\<close>

text \<open>
  A read of the chain that throws: the message of the \<^verbatim>\<open>catch\<close> block is shown, the
  error is a line of the console, nothing is sent to the store and no snapshot is set.
\<close>

lemma calculatePoints_chain_error:
  assumes "default_argument arg s = a" "a \<noteq> []" "toLowerCase a \<noteq> toLowerCase UNISWAP_POOL"
    and "getBlockNumber e = Inl err \<or>
         (\<exists>cb. getBlockNumber e = Inr cb \<and> balanceOf e CYGAAR_ADDRESS a = Inl err)"
  shows "error (calculatePoints e arg s) =
           ''Error fetching data. Please check the address and try again.''"
    and "console (calculatePoints e arg s) = console s @ [ConsoleErrorBare err]"
    and "upserts (calls (calculatePoints e arg s)) = upserts (calls s)"
    and "table (calculatePoints e arg s) = table s"
    and "pointsData (calculatePoints e arg s) = pointsData s"
    and "loading (calculatePoints e arg s) = False"
  using assms
  by (auto simp: calculatePoints_def Let_def finally_block_def catch_block_def upserts_append)

section \<open>One computation for every address and every run\<close>

text \<open>
  C8. Two runs that read the same block height and the same balance show the same points,
  level and blocks held, whatever the state they start from, the address, the clock and
  the answers of the store.
\<close>

theorem score_deterministic:
  assumes "default_argument arg1 s1 = a1" "a1 \<noteq> []" "toLowerCase a1 \<noteq> toLowerCase UNISWAP_POOL"
    and "getBlockNumber e1 = Inr cb" "balanceOf e1 CYGAAR_ADDRESS a1 = Inr bal"
    and "default_argument arg2 s2 = a2" "a2 \<noteq> []" "toLowerCase a2 \<noteq> toLowerCase UNISWAP_POOL"
    and "getBlockNumber e2 = Inr cb" "balanceOf e2 CYGAAR_ADDRESS a2 = Inr bal"
  shows "\<exists>pd1 pd2. pointsData (calculatePoints e1 arg1 s1) = Some pd1 \<and>
           pointsData (calculatePoints e2 arg2 s2) = Some pd2 \<and>
           points pd1 = points pd2 \<and> level pd1 = level pd2 \<and> blocksHeld pd1 = blocksHeld pd2"
  using calculatePoints_computed(1) [OF assms(1-5)] calculatePoints_computed(1) [OF assms(6-10)]
  by simp

theorem score_deterministic_witness:
  "default_argument (Some holder) (initial_state []) = holder \<and> holder \<noteq> [] \<and>
   toLowerCase holder \<noteq> toLowerCase UNISWAP_POOL \<and>
   getBlockNumber (chain_env 267810 (10 ^ 24) None) = Inr 267810 \<and>
   balanceOf (chain_env 267810 (10 ^ 24) None) CYGAAR_ADDRESS holder = Inr (10 ^ 24) \<and>
   default_argument (Some holder_lowercase)
     (calculatePoints (chain_env 267810 (10 ^ 24) None) (Some holder) (initial_state [])) =
     holder_lowercase \<and>
   holder_lowercase \<noteq> [] \<and> toLowerCase holder_lowercase \<noteq> toLowerCase UNISWAP_POOL \<and>
   getBlockNumber (chain_env 267810 (10 ^ 24) (Some ''503'')) = Inr 267810 \<and>
   balanceOf (chain_env 267810 (10 ^ 24) (Some ''503'')) CYGAAR_ADDRESS holder_lowercase =
     Inr (10 ^ 24) \<and>
   map_option points
     (pointsData (calculatePoints (chain_env 267810 (10 ^ 24) (Some ''503'')) (Some holder_lowercase)
        (calculatePoints (chain_env 267810 (10 ^ 24) None) (Some holder) (initial_state [])))) =
   map_option points
     (pointsData (calculatePoints (chain_env 267810 (10 ^ 24) None) (Some holder) (initial_state []))) \<and>
   map_option level
     (pointsData (calculatePoints (chain_env 267810 (10 ^ 24) (Some ''503'')) (Some holder_lowercase)
        (calculatePoints (chain_env 267810 (10 ^ 24) None) (Some holder) (initial_state [])))) =
   map_option level
     (pointsData (calculatePoints (chain_env 267810 (10 ^ 24) None) (Some holder) (initial_state [])))"
proof -
  let ?e1 = "chain_env 267810 (10 ^ 24) None"
  let ?e2 = "chain_env 267810 (10 ^ 24) (Some ''503'')"
  let ?s1 = "calculatePoints ?e1 (Some holder) (initial_state [])"
  have h1: "getBlockNumber ?e1 = Inr 267810" "balanceOf ?e1 CYGAAR_ADDRESS holder = Inr (10 ^ 24)"
    by (simp_all add: chain_env_simps)
  have h2: "getBlockNumber ?e2 = Inr 267810"
    "balanceOf ?e2 CYGAAR_ADDRESS holder_lowercase = Inr (10 ^ 24)"
    by (simp_all add: chain_env_simps)
  have he1: "default_argument (Some holder) (initial_state []) = holder"
    by (rule holder_eligible(1))
  have he2: "default_argument (Some holder_lowercase) ?s1 = holder_lowercase"
    by (rule holder_lowercase_eligible(1))
  from score_deterministic [OF he1 holder_eligible(2,3) h1 he2 holder_lowercase_eligible(2,3) h2]
  have "map_option points (pointsData (calculatePoints ?e2 (Some holder_lowercase) ?s1)) =
      map_option points (pointsData ?s1)"
    "map_option level (pointsData (calculatePoints ?e2 (Some holder_lowercase) ?s1)) =
      map_option level (pointsData ?s1)"
    by auto
  with he1 he2 holder_eligible(2,3) holder_lowercase_eligible(2,3) h1 h2
  show ?thesis by (intro conjI)
qed

text \<open>
  C9. The blocks held are the number of the block height minus \<^verbatim>\<open>START_BLOCK\<close>, which
  is 257810: at one block height every address and every balance gets the same value. Up
  to a height of \<open>2 ^ 53\<close> the number is the difference itself.
\<close>

theorem blocks_held_from_start_block:
  assumes "default_argument arg1 s1 = a1" "a1 \<noteq> []" "toLowerCase a1 \<noteq> toLowerCase UNISWAP_POOL"
    and "getBlockNumber e1 = Inr cb" "balanceOf e1 CYGAAR_ADDRESS a1 = Inr bal1"
    and "default_argument arg2 s2 = a2" "a2 \<noteq> []" "toLowerCase a2 \<noteq> toLowerCase UNISWAP_POOL"
    and "getBlockNumber e2 = Inr cb" "balanceOf e2 CYGAAR_ADDRESS a2 = Inr bal2"
  shows "map_option blocksHeld (pointsData (calculatePoints e1 arg1 s1)) =
           Some (Number_of_bigint (int cb - 257810)) \<and>
         map_option blocksHeld (pointsData (calculatePoints e2 arg2 s2)) =
           map_option blocksHeld (pointsData (calculatePoints e1 arg1 s1)) \<and>
         START_BLOCK = 257810 \<and>
         (cb \<le> 2 ^ 53 \<longrightarrow> Number_of_bigint (int cb - 257810) = Num (of_int (int cb - 257810)))"
proof -
  have "Number_of_bigint (int cb - 257810) = Num (of_int (int cb - 257810))" if "cb \<le> 2 ^ 53"
  proof -
    have "int cb \<le> 2 ^ 53" using that by (metis of_nat_le_iff of_nat_numeral of_nat_power)
    then have "\<bar>int cb - 257810\<bar> \<le> 2 ^ 53" by simp
    then show ?thesis by (rule Number_of_bigint_exact)
  qed
  then show ?thesis
    using calculatePoints_computed(1) [OF assms(1-5)] calculatePoints_computed(1) [OF assms(6-10)]
    by (simp add: START_BLOCK_def)
qed

theorem blocks_held_from_start_block_witness:
  "default_argument (Some holder) (initial_state []) = holder \<and> holder \<noteq> [] \<and>
   toLowerCase holder \<noteq> toLowerCase UNISWAP_POOL \<and>
   getBlockNumber (chain_env 267810 (10 ^ 24) None) = Inr 267810 \<and>
   balanceOf (chain_env 267810 (10 ^ 24) None) CYGAAR_ADDRESS holder = Inr (10 ^ 24) \<and>
   default_argument None ((initial_state [pool_row])\<lparr>address := holder_lowercase\<rparr>) =
     holder_lowercase \<and>
   holder_lowercase \<noteq> [] \<and> toLowerCase holder_lowercase \<noteq> toLowerCase UNISWAP_POOL \<and>
   getBlockNumber (chain_env 267810 (10 ^ 18) None) = Inr 267810 \<and>
   balanceOf (chain_env 267810 (10 ^ 18) None) CYGAAR_ADDRESS holder_lowercase = Inr (10 ^ 18) \<and>
   (267810 :: nat) \<le> 2 ^ 53 \<and>
   map_option blocksHeld
     (pointsData (calculatePoints (chain_env 267810 (10 ^ 24) None) (Some holder) (initial_state [])))
     = Some (Num 10000) \<and>
   map_option blocksHeld
     (pointsData (calculatePoints (chain_env 267810 (10 ^ 18) None) None
        ((initial_state [pool_row])\<lparr>address := holder_lowercase\<rparr>))) = Some (Num 10000)"
proof -
  let ?e1 = "chain_env 267810 (10 ^ 24) None"
  let ?e2 = "chain_env 267810 (10 ^ 18) None"
  let ?s2 = "(initial_state [pool_row])\<lparr>address := holder_lowercase\<rparr>"
  have he1: "default_argument (Some holder) (initial_state []) = holder"
    by (rule holder_eligible(1))
  have he2: "default_argument None ?s2 = holder_lowercase"
    by (simp add: default_argument_def)
  have h1: "getBlockNumber ?e1 = Inr 267810" "balanceOf ?e1 CYGAAR_ADDRESS holder = Inr (10 ^ 24)"
    by (simp_all add: chain_env_simps)
  have h2: "getBlockNumber ?e2 = Inr 267810"
    "balanceOf ?e2 CYGAAR_ADDRESS holder_lowercase = Inr (10 ^ 18)"
    by (simp_all add: chain_env_simps)
  have le: "(267810 :: nat) \<le> 2 ^ 53" by simp
  note th = blocks_held_from_start_block
    [OF he1 holder_eligible(2,3) h1 he2 holder_lowercase_eligible(2,3) h2]
  have a: "map_option blocksHeld (pointsData (calculatePoints ?e1 (Some holder) (initial_state []))) =
      Some (Number_of_bigint (int 267810 - 257810))"
    using th by blast
  have b: "map_option blocksHeld (pointsData (calculatePoints ?e2 None ?s2)) =
      map_option blocksHeld (pointsData (calculatePoints ?e1 (Some holder) (initial_state [])))"
    using th by blast
  have c: "Number_of_bigint (int 267810 - 257810) = Num (of_int (int 267810 - 257810))"
    using th le by blast
  have d: "Num (of_int (int 267810 - 257810)) = Num 10000" by simp
  have "map_option blocksHeld (pointsData (calculatePoints ?e1 (Some holder) (initial_state []))) =
      Some (Num 10000)"
    "map_option blocksHeld (pointsData (calculatePoints ?e2 None ?s2)) = Some (Num 10000)"
    by (simp_all only: a b c d)
  with he1 he2 holder_eligible(2,3) holder_lowercase_eligible(2,3) h1 h2 le
  show ?thesis by (intro conjI)
qed

section \<open>The leaderboard query\<close>

lemma insert_desc_set: "set (insert_desc r xs) = insert r (set xs)"
  by (induction xs) auto

lemma points_ge_total: "points_ge a b \<or> points_ge b a"
  by (cases a; cases b) auto

lemma points_ge_trans: "points_ge a b \<Longrightarrow> points_ge b c \<Longrightarrow> points_ge a c"
  by (cases a; cases b; cases c) auto

lemma insert_desc_sorted:
  "sorted_wrt (\<lambda>x y. points_ge (entry_points x) (entry_points y)) xs \<Longrightarrow>
   sorted_wrt (\<lambda>x y. points_ge (entry_points x) (entry_points y)) (insert_desc r xs)"
proof (induction xs)
  case Nil
  then show ?case by simp
next
  case (Cons x xs)
  show ?case
  proof (cases "points_ge (entry_points r) (entry_points x)")
    case True
    then have "\<forall>y\<in>set xs. points_ge (entry_points r) (entry_points y)"
      using Cons.prems by (auto intro: points_ge_trans)
    with True Cons.prems show ?thesis by simp
  next
    case False
    then have "points_ge (entry_points x) (entry_points r)"
      using points_ge_total [of "entry_points x" "entry_points r"] by simp
    with False Cons show ?thesis by (auto simp: insert_desc_set)
  qed
qed

lemma order_desc_sorted:
  "sorted_wrt (\<lambda>x y. points_ge (entry_points x) (entry_points y)) (order_desc rows)"
  unfolding order_desc_def by (induction rows) (simp_all add: insert_desc_sorted)

lemma order_desc_set: "set (order_desc rows) = set rows"
  unfolding order_desc_def by (induction rows) (simp_all add: insert_desc_set)

lemma sorted_wrt_take: "sorted_wrt P xs \<Longrightarrow> sorted_wrt P (take n xs)"
  by (metis append_take_drop_id sorted_wrt_append)

text \<open>What the select does guarantee.\<close>

lemma select_query_properties:
  "length (select_query a n rows) \<le> n"
  "sorted_wrt (\<lambda>x y. points_ge (entry_points x) (entry_points y)) (select_query a n rows)"
  "set (select_query a n rows) \<subseteq> {r \<in> set rows. entry_address r \<noteq> a}"
proof -
  show "length (select_query a n rows) \<le> n" by (simp add: select_query_def)
  show "sorted_wrt (\<lambda>x y. points_ge (entry_points x) (entry_points y)) (select_query a n rows)"
    by (simp add: select_query_def sorted_wrt_take order_desc_sorted)
  show "set (select_query a n rows) \<subseteq> {r \<in> set rows. entry_address r \<noteq> a}"
    using set_take_subset [of n "order_desc (filter (\<lambda>r. entry_address r \<noteq> a) rows)"]
    by (auto simp: select_query_def order_desc_set)
qed

text \<open>
  C5. The select compares addresses as text with the pool's address in its checksum
  spelling, while every row the component writes is in lower case: a row under the
  pool's address in lower case is returned and shown.
\<close>

theorem leaderboard_lists_lowercase_pool:
  "leaderboard (fetchLeaderboard (chain_env 267810 (10 ^ 24) None) (initial_state [pool_row])) =
     [pool_row] \<and>
   toLowerCase (entry_address pool_row) = toLowerCase UNISWAP_POOL"
proof
  show "leaderboard (fetchLeaderboard (chain_env 267810 (10 ^ 24) None) (initial_state [pool_row])) =
     [pool_row]"
    by (simp add: fetchLeaderboard_fields chain_env_simps initial_state_def select_query_def
        order_desc_def pool_row_def pool_lowercase_def UNISWAP_POOL_def)
  show "toLowerCase (entry_address pool_row) = toLowerCase UNISWAP_POOL"
    by (simp add: pool_row_def pool_lowercase_eq)
qed

section \<open>A block height below the start block\<close>

lemma fmul_between:
  assumes "pow2 a \<le> \<bar>x\<bar>" "\<bar>x\<bar> \<le> pow2 b" "pow2 c \<le> \<bar>y\<bar>" "\<bar>y\<bar> \<le> pow2 d"
    and "- 1022 \<le> a + c" "b + d \<le> 1023"
  shows "\<exists>r. fmul (Num x) (Num y) = Num r \<and> pow2 (a + c) \<le> \<bar>r\<bar> \<and> \<bar>r\<bar> \<le> pow2 (b + d) \<and>
           (0 < x * y \<longrightarrow> 0 < r) \<and> (x * y < 0 \<longrightarrow> r < 0)"
proof -
  have "pow2 a * pow2 c \<le> \<bar>x\<bar> * \<bar>y\<bar>"
    using assms(1,3) pow2_pos [of a] pow2_pos [of c] by (intro mult_mono) simp_all
  then have lo: "pow2 (a + c) \<le> \<bar>x * y\<bar>" by (simp add: pow2_add abs_mult)
  have "\<bar>x\<bar> * \<bar>y\<bar> \<le> pow2 b * pow2 d"
    using assms(2,4) pow2_pos [of b] by (intro mult_mono) simp_all
  then have hi: "\<bar>x * y\<bar> \<le> pow2 (b + d)" by (simp add: pow2_add abs_mult)
  show ?thesis using round64_between [OF lo hi assms(5,6)] by simp
qed

lemma POINTS_PER_TOKEN_between:
  "\<exists>p. POINTS_PER_TOKEN = Num p \<and> 0 < p \<and> pow2 (- 34) \<le> \<bar>p\<bar> \<and> \<bar>p\<bar> \<le> pow2 (- 33)"
  by (rule exI [of _ "7737125245533627 / 77371252455336267181195264"]) (simp add: ppt pow2_def)

lemma tokenBalance_between:
  assumes "bal \<noteq> 0"
  shows "\<exists>t. Number_of_decimal (formatEther bal) = Num t \<and> 0 < t \<and>
           pow2 (- 60) \<le> \<bar>t\<bar> \<and> \<bar>t\<bar> \<le> pow2 197"
  using round64_between [OF formatEther_between(2,3) [OF assms]] formatEther_between(1) [OF assms]
  by (auto simp: Number_of_decimal_def)

lemma tokenBalance_zero: "Number_of_decimal (formatEther 0) = Num 0"
  by (simp add: Number_of_decimal_def formatEther_def round64_small)

text \<open>
  The points of a positive balance over a number of blocks between \<open>1\<close> and \<open>2 ^ 53\<close> in
  magnitude: a finite number with the sign of the number of blocks.
\<close>

lemma points_between:
  assumes "bal \<noteq> 0" "n \<noteq> 0" "\<bar>n\<bar> \<le> 2 ^ 53"
  shows "\<exists>r. fmul (fmul (Number_of_decimal (formatEther bal)) POINTS_PER_TOKEN) (Num (of_int n)) = Num r \<and>
           pow2 (- 94) \<le> \<bar>r\<bar> \<and> \<bar>r\<bar> \<le> pow2 217 \<and> (0 < n \<longrightarrow> 0 < r) \<and> (n < 0 \<longrightarrow> r < 0)"
proof -
  obtain t where t: "Number_of_decimal (formatEther bal) = Num t" "0 < t"
    "pow2 (- 60) \<le> \<bar>t\<bar>" "\<bar>t\<bar> \<le> pow2 197"
    using tokenBalance_between [OF assms(1)] by blast
  obtain p where p: "POINTS_PER_TOKEN = Num p" "0 < p" "pow2 (- 34) \<le> \<bar>p\<bar>" "\<bar>p\<bar> \<le> pow2 (- 33)"
    using POINTS_PER_TOKEN_between by blast
  obtain u where u: "fmul (Num t) (Num p) = Num u" "pow2 (- 60 + - 34) \<le> \<bar>u\<bar>"
    "\<bar>u\<bar> \<le> pow2 (197 + - 33)" "0 < t * p \<longrightarrow> 0 < u"
    using fmul_between [OF t(3,4) p(3,4)] by auto
  have u0: "0 < u" using u(4) t(2) p(2) by simp
  define y :: rat where "y = of_int n"
  have "1 \<le> \<bar>n\<bar>" using assms(2) by simp
  then have "(1 :: rat) \<le> \<bar>y\<bar>" unfolding y_def by (simp flip: of_int_abs)
  then have y1: "pow2 0 \<le> \<bar>y\<bar>" by (simp add: pow2_def)
  have "(of_int \<bar>n\<bar> :: rat) \<le> of_int (2 ^ 53)" using assms(3) by (simp only: of_int_le_iff)
  then have y2: "\<bar>y\<bar> \<le> pow2 53" by (simp add: y_def pow2_def)
  obtain r where r: "fmul (Num u) (Num y) = Num r" "pow2 (- 60 + - 34 + 0) \<le> \<bar>r\<bar>"
    "\<bar>r\<bar> \<le> pow2 (197 + - 33 + 53)" "0 < u * y \<longrightarrow> 0 < r" "u * y < 0 \<longrightarrow> r < 0"
    using fmul_between [OF u(2,3) y1 y2] by auto
  have "0 < r" if "0 < n" using r(4) u0 that by (simp add: y_def)
  moreover have "r < 0" if "n < 0" using r(5) u0 that by (simp add: y_def mult_less_0_iff)
  moreover have "fmul (fmul (Number_of_decimal (formatEther bal)) POINTS_PER_TOKEN) (Num (of_int n)) = Num r"
    unfolding t(1) p(1) u(1) using r(1) by (simp only: y_def)
  moreover have "pow2 (- 94) \<le> \<bar>r\<bar>" "\<bar>r\<bar> \<le> pow2 217" using r(2,3) by simp_all
  ultimately show ?thesis by blast
qed

lemma points_zero_balance:
  "fmul (fmul (Number_of_decimal (formatEther 0)) POINTS_PER_TOKEN) (Num y) = Num 0"
  by (simp add: tokenBalance_zero ppt round64_small)

text \<open>
  C7, as the code has it. A block height below \<^verbatim>\<open>START_BLOCK\<close> raises no error: the
  snapshot is set with the negative number of blocks held and with the product of the
  balance, \<^verbatim>\<open>POINTS_PER_TOKEN\<close> and that number as its points, which are zero for a
  balance of zero and negative otherwise, and the same points are sent to the store.
\<close>

theorem negative_blocks_scored:
  assumes "default_argument arg s = a" "a \<noteq> []" "toLowerCase a \<noteq> toLowerCase UNISWAP_POOL"
    and "getBlockNumber e = Inr cb" "balanceOf e CYGAAR_ADDRESS a = Inr bal"
    and "int cb < START_BLOCK"
  shows "error (calculatePoints e arg s) = [] \<and>
         (\<exists>r. pointsData (calculatePoints e arg s) =
                 Some \<lparr>balance = toFixed2 (numberToString e) (Number_of_decimal (formatEther bal)),
                       points = Num r,
                       blocksHeld = Num (of_int (int cb - START_BLOCK)),
                       level = calculateLevel (Num r)\<rparr> \<and>
               Num r = fmul (fmul (Number_of_decimal (formatEther bal)) POINTS_PER_TOKEN)
                         (Num (of_int (int cb - START_BLOCK))) \<and>
               r \<le> 0 \<and> (bal \<noteq> 0 \<longrightarrow> r < 0) \<and>
               map row_points (upserts (calls (calculatePoints e arg s))) =
                 map row_points (upserts (calls s)) @ [Num r])"
proof -
  define n where "n = int cb - START_BLOCK"
  have n: "n < 0" "\<bar>n\<bar> \<le> 2 ^ 53" "n \<noteq> 0"
    using assms(6) by (simp_all add: n_def START_BLOCK_def)
  have bh: "Number_of_bigint n = Num (of_int n)" using n(2) by (rule Number_of_bigint_exact)
  have "\<exists>r. fmul (fmul (Number_of_decimal (formatEther bal)) POINTS_PER_TOKEN) (Num (of_int n)) = Num r \<and>
          r \<le> 0 \<and> (bal \<noteq> 0 \<longrightarrow> r < 0)"
  proof (cases "bal = 0")
    case True
    then show ?thesis using points_zero_balance [of "of_int n"] by simp
  next
    case False
    from points_between [OF False n(3) n(2)] n(1) show ?thesis by force
  qed
  then obtain r where r:
    "fmul (fmul (Number_of_decimal (formatEther bal)) POINTS_PER_TOKEN) (Num (of_int n)) = Num r"
    "r \<le> 0" "bal \<noteq> 0 \<longrightarrow> r < 0"
    by blast
  have pd: "pointsData (calculatePoints e arg s) =
      Some \<lparr>balance = toFixed2 (numberToString e) (Number_of_decimal (formatEther bal)),
            points = Num r, blocksHeld = Num (of_int n), level = calculateLevel (Num r)\<rparr>"
    using calculatePoints_computed(1) [OF assms(1-5)] by (simp add: n_def [symmetric] bh r(1))
  have up: "map row_points (upserts (calls (calculatePoints e arg s))) =
      map row_points (upserts (calls s)) @ [Num r]"
    using calculatePoints_computed(7) [OF assms(1-5)]
    by (simp add: upserts_append n_def [symmetric] bh r(1) split: option.split)
  have "error (calculatePoints e arg s) = []" by (rule calculatePoints_computed(2) [OF assms(1-5)])
  with pd up r show ?thesis unfolding n_def by (intro conjI exI [of _ r]) simp_all
qed

theorem negative_blocks_scored_witness:
  "default_argument (Some holder) (initial_state []) = holder \<and> holder \<noteq> [] \<and>
   toLowerCase holder \<noteq> toLowerCase UNISWAP_POOL \<and>
   getBlockNumber (chain_env 257809 (10 ^ 18) None) = Inr 257809 \<and>
   balanceOf (chain_env 257809 (10 ^ 18) None) CYGAAR_ADDRESS holder = Inr (10 ^ 18) \<and>
   int 257809 < START_BLOCK \<and>
   error (calculatePoints (chain_env 257809 (10 ^ 18) None) (Some holder) (initial_state [])) = [] \<and>
   map_option blocksHeld
     (pointsData (calculatePoints (chain_env 257809 (10 ^ 18) None) (Some holder) (initial_state [])))
     = Some (Num (- 1))"
proof -
  let ?e = "chain_env 257809 (10 ^ 18) None"
  have he: "default_argument (Some holder) (initial_state []) = holder"
    by (rule holder_eligible(1))
  have h: "getBlockNumber ?e = Inr 257809" "balanceOf ?e CYGAAR_ADDRESS holder = Inr (10 ^ 18)"
    by (simp_all add: chain_env_simps)
  have lt: "int 257809 < START_BLOCK" by (simp add: START_BLOCK_def)
  from negative_blocks_scored [OF he holder_eligible(2,3) h lt]
  have "error (calculatePoints ?e (Some holder) (initial_state [])) = []"
    "map_option blocksHeld (pointsData (calculatePoints ?e (Some holder) (initial_state []))) =
      Some (Num (of_int (int 257809 - START_BLOCK)))"
    by auto
  moreover have "Num (of_int (int 257809 - START_BLOCK)) = Num (- 1)" by (simp add: START_BLOCK_def)
  ultimately show ?thesis using he holder_eligible(2,3) h lt by (simp only:) (intro conjI TrueI; simp)
qed

text \<open>
  C7 as the specification states it fails: at block height 0 and a balance of one token
  no error is set, the snapshot shows negative points, 257810 blocks below zero and
  level 0, and the negative points are sent to the store.
\<close>

theorem negative_blocks_counterexample:
  "int 0 < START_BLOCK \<and>
   error (calculatePoints (chain_env 0 (10 ^ 18) None) (Some holder) (initial_state [])) = [] \<and>
   pointsData (calculatePoints (chain_env 0 (10 ^ 18) None) (Some holder) (initial_state [])) =
     Some \<lparr>balance = ''1.00'', points = Num (- (7609208143428895 / 295147905179352825856)),
           blocksHeld = Num (- 257810), level = Num 0\<rparr> \<and>
   map row_points
     (upserts (calls (calculatePoints (chain_env 0 (10 ^ 18) None) (Some holder)
        (initial_state [])))) = [Num (- (7609208143428895 / 295147905179352825856))] \<and>
   - (7609208143428895 / 295147905179352825856) < (0 :: rat)"
proof -
  let ?e = "chain_env 0 (10 ^ 18) None"
  have he: "default_argument (Some holder) (initial_state []) = holder"
    by (rule holder_eligible(1))
  have h: "getBlockNumber ?e = Inr 0" "balanceOf ?e CYGAAR_ADDRESS holder = Inr (10 ^ 18)"
    by (simp_all add: chain_env_simps)
  have bh: "Number_of_bigint (int 0 - START_BLOCK) = Num (- 257810)"
    using Number_of_bigint_exact [of "- 257810"] by (simp add: START_BLOCK_def)
  have bal: "toFixed2 (numberToString ?e) (Num 1) = ''1.00''"
    by (simp add: toFixed2_def fixed2_one)
  note c = calculatePoints_computed [OF he holder_eligible(2,3) h]
  have "int 0 < START_BLOCK" by (simp add: START_BLOCK_def)
  moreover have "error (calculatePoints ?e (Some holder) (initial_state [])) = []" by (rule c(2))
  moreover have "pointsData (calculatePoints ?e (Some holder) (initial_state [])) =
     Some \<lparr>balance = ''1.00'', points = Num (- (7609208143428895 / 295147905179352825856)),
           blocksHeld = Num (- 257810), level = Num 0\<rparr>"
    by (simp only: c(1) bh tokens_1 neg_points neg_level bal)
  moreover have "map row_points (upserts (calls (calculatePoints ?e (Some holder) (initial_state [])))) =
      [Num (- (7609208143428895 / 295147905179352825856))]"
    unfolding c(7) bh tokens_1 neg_points
    by (simp add: upserts_append initial_state_def chain_env_simps)
  moreover have "- (7609208143428895 / 295147905179352825856) < (0 :: rat)" by simp
  ultimately show ?thesis by (intro conjI)
qed

end
